theory Spec2Isabelle
  imports Main "HOL-Library.Signed_Division" "HOL-Library.Monad_Syntax" "HOL-Library.Multiset"
begin

section \<open>Geometry, colours and the piece catalog (tetris/piece.go)\<close>

text \<open>
  Go's \<open>int\<close> is modelled as \<open>int\<close>. Coordinates and rotation indices stay small; the
  score, which grows without a bound of its own, wraps around at 64 bits as Go's \<open>+=\<close>
  does (\<open>wrap64\<close> below).
  Go's \<open>/\<close> and \<open>%\<close> truncate towards zero: they are \<open>sdiv\<close> and \<open>smod\<close>.
  A panic of the Go code (index out of range, division by zero, nil or dangling
  pointer) is the result \<open>None\<close>.
\<close>

text \<open>\<open>type Vector struct { x, y int }\<close>; the literal \<open>Vector{a, b}\<close> is \<open>Vector a b\<close>.\<close>

datatype Vector = Vector (vx: int) (vy: int)

text \<open>\<open>termbox.Attribute\<close>: only the colour constants the program names.\<close>

datatype Attribute =
  ColorDefault | ColorYellow | ColorRed | ColorGreen | ColorMagenta
  | ColorWhite | ColorBlue | ColorCyan

type_synonym PieceInstance = "Vector list"

record Piece =
  name :: string
  rotations :: "PieceInstance list"
  currentRotation :: int
  initialLocation :: Vector
  color :: Attribute

text \<open>\<open>func (p *Piece) instance() PieceInstance\<close>: \<open>p.rotations[p.currentRotation]\<close>.\<close>

definition Piece_instance :: "Piece \<Rightarrow> PieceInstance option" where
  "Piece_instance p =
     (if 0 \<le> currentRotation p \<and> currentRotation p < int (length (rotations p))
      then Some (rotations p ! nat (currentRotation p)) else None)"

text \<open>\<open>func (p *Piece) rotate()\<close>: go to the next rotation.\<close>

definition Piece_rotate :: "Piece \<Rightarrow> Piece option" where
  "Piece_rotate p =
     (if length (rotations p) = 0 then None
      else Some (p\<lparr>currentRotation := (currentRotation p + 1) smod int (length (rotations p))\<rparr>))"

text \<open>\<open>func (p *Piece) unrotate()\<close>: go to the previous rotation.\<close>

definition Piece_unrotate :: "Piece \<Rightarrow> Piece option" where
  "Piece_unrotate p =
     (if length (rotations p) = 0 then None
      else let r = (currentRotation p - 1) smod int (length (rotations p))
           in Some (p\<lparr>currentRotation := (if r < 0 then r + int (length (rotations p)) else r)\<rparr>))"

text \<open>\<open>func (p *Piece) dblrotate()\<close>: rotate the piece 180 degrees.\<close>

definition Piece_dblrotate :: "Piece \<Rightarrow> Piece option" where
  "Piece_dblrotate p =
     (if length (rotations p) = 0 then None
      else let r = (currentRotation p + 2) smod int (length (rotations p))
           in Some (p\<lparr>currentRotation := (if r < 0 then r + int (length (rotations p)) else r)\<rparr>))"

text \<open>\<open>func tetrisPieces() []Piece\<close>: the hard-coded pieces.\<close>

definition tetrisPieces :: "Piece list" where
  "tetrisPieces =
    [\<lparr>name = ''O'',
      rotations = [[Vector 0 0, Vector 1 0, Vector 0 1, Vector 1 1]],
      currentRotation = 0, initialLocation = Vector 4 0, color = ColorYellow\<rparr>,
     \<lparr>name = ''Z'',
      rotations = [[Vector 0 0, Vector 1 0, Vector 1 1, Vector 2 1],
                   [Vector 1 0, Vector 0 1, Vector 1 1, Vector 0 2]],
      currentRotation = 0, initialLocation = Vector 3 0, color = ColorRed\<rparr>,
     \<lparr>name = ''S'',
      rotations = [[Vector 1 0, Vector 2 0, Vector 0 1, Vector 1 1],
                   [Vector 0 0, Vector 0 1, Vector 1 1, Vector 1 2]],
      currentRotation = 0, initialLocation = Vector 3 0, color = ColorGreen\<rparr>,
     \<lparr>name = ''T'',
      rotations = [[Vector 0 0, Vector 1 0, Vector 2 0, Vector 1 1],
                   [Vector 1 0, Vector 0 1, Vector 1 1, Vector 1 2],
                   [Vector 1 0, Vector 0 1, Vector 1 1, Vector 2 1],
                   [Vector 0 0, Vector 0 1, Vector 1 1, Vector 0 2]],
      currentRotation = 0, initialLocation = Vector 3 0, color = ColorMagenta\<rparr>,
     \<lparr>name = ''L'',
      rotations = [[Vector 0 1, Vector 1 1, Vector 2 1, Vector 0 2],
                   [Vector 0 0, Vector 1 0, Vector 1 1, Vector 1 2],
                   [Vector 2 0, Vector 0 1, Vector 1 1, Vector 2 1],
                   [Vector 1 0, Vector 1 1, Vector 1 2, Vector 2 2]],
      currentRotation = 0, initialLocation = Vector 3 (- 1), color = ColorWhite\<rparr>,
     \<lparr>name = ''J'',
      rotations = [[Vector 0 1, Vector 1 1, Vector 2 1, Vector 2 2],
                   [Vector 1 0, Vector 1 1, Vector 1 2, Vector 0 2],
                   [Vector 0 1, Vector 1 1, Vector 2 1, Vector 0 0],
                   [Vector 1 0, Vector 2 0, Vector 1 1, Vector 1 2]],
      currentRotation = 0, initialLocation = Vector 3 (- 1), color = ColorBlue\<rparr>,
     \<lparr>name = ''I'',
      rotations = [[Vector 0 1, Vector 1 1, Vector 2 1, Vector 3 1],
                   [Vector 1 0, Vector 1 1, Vector 1 2, Vector 1 3]],
      currentRotation = 0, initialLocation = Vector 3 (- 1), color = ColorCyan\<rparr>]"

section \<open>The random source (math/rand) and the bag (tetris/piece.go)\<close>

text \<open>
  The state of the global source of \<open>math/rand\<close> is the sequence of raw outputs it has
  yet to produce; nothing is assumed about it, so \<open>rand.Seed\<close> (which replaces the
  sequence by one that depends on the clock) needs no step of its own.
  \<open>rand.Intn(n)\<close> panics for \<open>n \<le> 0\<close> and otherwise returns a value in \<open>[0, n)\<close>.
\<close>

type_synonym Rand = "nat \<Rightarrow> nat"

definition rand_Intn :: "int \<Rightarrow> Rand \<Rightarrow> (int \<times> Rand) option" where
  "rand_Intn n r = (if n \<le> 0 then None else Some (int (r 0) mod n, (\<lambda>k. r (Suc k))))"

text \<open>The closure \<open>func(i, j int) { b.pieces[i], b.pieces[j] = b.pieces[j], b.pieces[i] }\<close>.\<close>

definition swap :: "nat \<Rightarrow> nat \<Rightarrow> int list \<Rightarrow> int list" where
  "swap i j xs = xs[i := xs ! j, j := xs ! i]"

text \<open>
  \<open>rand.Shuffle(n, swap)\<close> of the Go library: \<open>for i := n - 1; i > 0; i-- { j := Intn(i + 1);
  swap(i, j) }\<close>. The first argument here is the loop variable \<open>i\<close>.
\<close>

fun rand_Shuffle :: "nat \<Rightarrow> int list \<Rightarrow> Rand \<Rightarrow> int list \<times> Rand" where
  "rand_Shuffle 0 xs r = (xs, r)"
| "rand_Shuffle (Suc i) xs r =
     rand_Shuffle i (swap (Suc i) (r 0 mod (Suc i + 1)) xs) (\<lambda>k. r (Suc k))"

record Bag =
  pieceNumber :: int
  pieces :: "int list"
  bagNumber :: int

text \<open>\<open>func (b *Bag) shuffle()\<close>.\<close>

definition Bag_shuffle :: "Bag \<Rightarrow> Rand \<Rightarrow> Bag \<times> Rand" where
  "Bag_shuffle b r =
     (let xs = [0, 1, 2, 3, 4, 5, 6];
          (ys, r') = rand_Shuffle (length xs - 1) xs r
      in (b\<lparr>pieces := ys\<rparr>, r'))"

text \<open>\<open>func (b *Bag) initialize()\<close>.\<close>

definition Bag_initialize :: "Bag \<Rightarrow> Rand \<Rightarrow> Bag \<times> Rand" where
  "Bag_initialize b r = Bag_shuffle (b\<lparr>pieceNumber := 6\<rparr>) r"

text \<open>\<open>func (b *Bag) getPiece() (retPiece int)\<close>.\<close>

definition Bag_getPiece :: "Bag \<Rightarrow> Rand \<Rightarrow> (int \<times> Bag \<times> Rand) option" where
  "Bag_getPiece b r =
     (let (b1, r1) =
            (if pieceNumber b < 0
             then (let (b', r') = Bag_initialize b r in (b'\<lparr>bagNumber := bagNumber b' + 1\<rparr>, r'))
             else (b, r))
      in if 0 \<le> pieceNumber b1 \<and> pieceNumber b1 < int (length (pieces b1))
         then Some (pieces b1 ! nat (pieceNumber b1), b1\<lparr>pieceNumber := pieceNumber b1 - 1\<rparr>, r1)
         else None)"

text \<open>The results of \<open>n\<close> successive calls of \<open>getPiece\<close>, in the order of the calls.\<close>

fun Bag_draws :: "nat \<Rightarrow> Bag \<Rightarrow> Rand \<Rightarrow> (int list \<times> Bag \<times> Rand) option" where
  "Bag_draws 0 b r = Some ([], b, r)"
| "Bag_draws (Suc n) b r =
     (case Bag_getPiece b r of
        None \<Rightarrow> None
      | Some (k, b', r') \<Rightarrow>
          (case Bag_draws n b' r' of
             None \<Rightarrow> None
           | Some (ks, b'', r'') \<Rightarrow> Some (k # ks, b'', r'')))"

section \<open>The board\<close>

text \<open>
  The file that declares \<open>Board\<close>, \<open>Vector.plus\<close> and the constants \<open>width\<close>,
  \<open>height\<close> and \<open>initialX\<close> is not among the sources. The constants are parameters of
  the model; the type and its operations follow the specification. One more parameter is
  \<open>hugePoints\<close>: the value of the conversion \<open>int(points)\<close> of \<open>anchor\<close> for a float
  \<open>points\<close> beyond the range of \<open>int\<close>, which Go leaves to the implementation.
\<close>

record Consts =
  width :: int
  height :: int
  initialX :: int
  hugePoints :: int

text \<open>Modelled from the spec: \<open>Vector.plus\<close> is missing; arithmetic is component-wise addition.\<close>

definition Vector_plus :: "Vector \<Rightarrow> Vector \<Rightarrow> Vector" where
  "Vector_plus a b = Vector (vx a + vx b) (vy a + vy b)"

text \<open>
  A \<open>*Piece\<close> of the program is \<open>nil\<close> or the address \<open>&game.pieces[i]\<close> of an
  entry of the game's piece slice: \<open>None\<close> or \<open>Some i\<close>. The slice is the store that
  the pointers are read and written through.
\<close>

type_synonym PiecePtr = "nat option"

definition deref :: "Piece list \<Rightarrow> PiecePtr \<Rightarrow> Piece option" where
  "deref ps ptr =
     (case ptr of None \<Rightarrow> None
      | Some i \<Rightarrow> if i < length ps then Some (ps ! i) else None)"

definition assign :: "Piece list \<Rightarrow> PiecePtr \<Rightarrow> Piece \<Rightarrow> Piece list" where
  "assign ps ptr p = (case ptr of None \<Rightarrow> ps | Some i \<Rightarrow> ps[i := p])"

text \<open>
  Modelled from the spec: the type \<open>Board\<close> is missing. A fixed width \<open>\<times>\<close> height grid, each
  cell either empty or holding a settled colour tag (the rows from top to bottom, row
  \<open>y\<close> holding the cells \<open>(0, y)\<close> to \<open>(width - 1, y)\<close>), plus the current falling
  piece and its position.
\<close>

type_synonym Grid = "Attribute option list list"

record Board =
  cells :: Grid
  currentPiece :: PiecePtr
  currentPosition :: Vector

text \<open>Modelled from the spec: the lookup \<open>board.cells[point]\<close>; a point off the grid holds nothing.\<close>

definition cellAt :: "Grid \<Rightarrow> Vector \<Rightarrow> Attribute option" where
  "cellAt g v =
     (if 0 \<le> vy v \<and> vy v < int (length g) \<and> 0 \<le> vx v \<and> vx v < int (length (g ! nat (vy v)))
      then g ! nat (vy v) ! nat (vx v) else None)"

text \<open>Modelled from the spec: writing a settled colour into a cell; a point off the grid has
  no cell to write.\<close>

definition setCell :: "Grid \<Rightarrow> Vector \<Rightarrow> Attribute \<Rightarrow> Grid" where
  "setCell g v a =
     (if 0 \<le> vy v \<and> vy v < int (length g) \<and> 0 \<le> vx v \<and> vx v < int (length (g ! nat (vy v)))
      then g[nat (vy v) := (g ! nat (vy v))[nat (vx v) := Some a]] else g)"

text \<open>Modelled from the spec: \<open>newBoard\<close> is missing; the grid starts with no settled cell.\<close>

definition newBoard :: "Consts \<Rightarrow> Board" where
  "newBoard c =
     \<lparr>cells = replicate (nat (height c)) (replicate (nat (width c)) None),
      currentPiece = None, currentPosition = Vector 0 0\<rparr>"

text \<open>
  Modelled from the spec: \<open>canPlace\<close> is missing. True iff every absolute cell of the piece
  at position + delta under the given rotation index lies within the side bounds and
  the lower bound (no upper bound is checked) and does not coincide with a settled cell.
\<close>

definition cellFree :: "Consts \<Rightarrow> Grid \<Rightarrow> Vector \<Rightarrow> bool" where
  "cellFree c g v \<longleftrightarrow> 0 \<le> vx v \<and> vx v < width c \<and> vy v < height c \<and> cellAt g v = None"

definition Board_canPlace :: "Consts \<Rightarrow> Piece list \<Rightarrow> Board \<Rightarrow> Vector \<Rightarrow> int \<Rightarrow> bool option" where
  "Board_canPlace c ps b delta rot = do {
     p \<leftarrow> deref ps (currentPiece b);
     inst \<leftarrow> (if 0 \<le> rot \<and> rot < int (length (rotations p))
              then Some (rotations p ! nat rot) else None);
     Some (list_all
             (\<lambda>pt. cellFree c (cells b) (Vector_plus pt (Vector_plus (currentPosition b) delta)))
             inst)
   }"

text \<open>
  Modelled from the spec: \<open>moveIfPossible\<close> is missing. If \<open>canPlace(delta, currentRotation)\<close>
  holds, commits position += delta and returns true; otherwise leaves the state unchanged
  and returns false.
\<close>

definition Board_moveIfPossible ::
  "Consts \<Rightarrow> Piece list \<Rightarrow> Board \<Rightarrow> Vector \<Rightarrow> (Board \<times> bool) option" where
  "Board_moveIfPossible c ps b delta = do {
     p \<leftarrow> deref ps (currentPiece b);
     ok \<leftarrow> Board_canPlace c ps b delta (currentRotation p);
     Some (if ok then (b\<lparr>currentPosition := Vector_plus (currentPosition b) delta\<rparr>, True)
           else (b, False))
   }"

text \<open>
  Modelled from the spec: \<open>currentPieceInCollision\<close> is missing. True if the piece's cells at
  its current position and rotation overlap settled cells or lie outside the horizontal
  or lower bounds.
\<close>

definition Board_currentPieceInCollision :: "Consts \<Rightarrow> Piece list \<Rightarrow> Board \<Rightarrow> bool option" where
  "Board_currentPieceInCollision c ps b = do {
     p \<leftarrow> deref ps (currentPiece b);
     inst \<leftarrow> Piece_instance p;
     Some (list_ex
             (\<lambda>pt. let v = Vector_plus pt (currentPosition b)
                   in cellAt (cells b) v \<noteq> None \<or> vx v < 0 \<or> width c \<le> vx v \<or> height c \<le> vy v)
             inst)
   }"

text \<open>
  Modelled from the spec: \<open>mergeCurrentPiece\<close> is missing. Copies the piece's currently
  occupied cells into the settled grid using the piece's colour tag; the piece reference
  stays.
\<close>

definition Board_mergeCurrentPiece :: "Piece list \<Rightarrow> Board \<Rightarrow> Board option" where
  "Board_mergeCurrentPiece ps b = do {
     p \<leftarrow> deref ps (currentPiece b);
     inst \<leftarrow> Piece_instance p;
     Some (b\<lparr>cells :=
               foldl (\<lambda>g pt. setCell g (Vector_plus pt (currentPosition b)) (color p)) (cells b) inst\<rparr>)
   }"

text \<open>
  Modelled from the spec: \<open>clearedRows\<close> is missing. Scans the rows top to bottom; a row
  qualifies if every cell in it is settled; the indices are returned in ascending order.
\<close>

definition rowFull :: "Attribute option list \<Rightarrow> bool" where
  "rowFull row = list_all (\<lambda>cell. cell \<noteq> None) row"

definition Board_clearedRows :: "Board \<Rightarrow> int list" where
  "Board_clearedRows b =
     map int (filter (\<lambda>y. rowFull (cells b ! y)) [0..<length (cells b)])"

text \<open>
  Modelled from the spec: \<open>clearRows\<close> is missing. Rebuilds the grid by keeping only the
  non-full rows in order and prepending enough empty rows at the top to restore the fixed
  height.
\<close>

definition Board_clearRows :: "Consts \<Rightarrow> Board \<Rightarrow> Board" where
  "Board_clearRows c b =
     (let kept = filter (\<lambda>row. \<not> rowFull row) (cells b)
      in b\<lparr>cells := replicate (length (cells b) - length kept) (replicate (nat (width c)) None)
                      @ kept\<rparr>)"

text \<open>
  The loop \<open>for game.board.moveIfPossible(Vector{0, 1}) { }\<close> of \<open>QuickDrop\<close>. It has no
  bound of its own: \<open>None\<close> is a panic of \<open>moveIfPossible\<close> or a loop that never ends.
\<close>

partial_function (option) Board_dropLoop :: "Consts \<Rightarrow> Piece list \<Rightarrow> Board \<Rightarrow> Board option" where
  "Board_dropLoop c ps b =
     Option.bind (Board_moveIfPossible c ps b (Vector 0 1))
       (\<lambda>(b', moved). if moved then Board_dropLoop c ps b' else Some b')"

declare Board_dropLoop.simps [code]

section \<open>The game (tetris.go)\<close>

datatype Direction = Up | Down | Left | Right

text \<open>
  \<open>type Game struct\<close>. The board is owned by the game alone and is held by value;
  \<open>ticker\<close> is the interval of the running ticker in milliseconds, \<open>None\<close> when none
  runs; \<open>rand\<close> is the state of the global random source the game draws from.
\<close>

record Game =
  board :: Board
  nextPiece :: PiecePtr
  pieces :: "Piece list"
  paused :: bool
  over :: bool
  dropDelayMillis :: int
  ticker :: "int option"
  score :: int
  rand :: Rand

text \<open>\<open>func (game *Game) startTicker()\<close>.\<close>

definition Game_startTicker :: "Game \<Rightarrow> Game" where
  "Game_startTicker game =
     (let g1 = game\<lparr>dropDelayMillis := 800 - score game sdiv 5\<rparr>;
          g2 = (if dropDelayMillis g1 < 200 then g1\<lparr>dropDelayMillis := 200\<rparr> else g1)
      in g2\<lparr>ticker := Some (dropDelayMillis g2)\<rparr>)"

text \<open>\<open>func (game *Game) stopTicker()\<close>.\<close>

definition Game_stopTicker :: "Game \<Rightarrow> Game" where
  "Game_stopTicker game = game\<lparr>ticker := None\<rparr>"

text \<open>
  \<open>func (game *Game) GeneratePiece() *Piece\<close>:
  \<open>return &game.pieces[rand.Intn(len(game.pieces))]\<close>.
\<close>

definition Game_GeneratePiece :: "Game \<Rightarrow> (PiecePtr \<times> Game) option" where
  "Game_GeneratePiece game = do {
     (i, r') \<leftarrow> rand_Intn (int (length (Game.pieces game))) (rand game);
     Some (Some (nat i), game\<lparr>rand := r'\<rparr>)
   }"

text \<open>The results of \<open>n\<close> successive calls of \<open>GeneratePiece\<close>, in the order of the calls.\<close>

fun Game_draws :: "nat \<Rightarrow> Game \<Rightarrow> (PiecePtr list \<times> Game) option" where
  "Game_draws 0 game = Some ([], game)"
| "Game_draws (Suc n) game =
     (case Game_GeneratePiece game of
        None \<Rightarrow> None
      | Some (k, g') \<Rightarrow>
          (case Game_draws n g' of
             None \<Rightarrow> None
           | Some (ks, g'') \<Rightarrow> Some (k # ks, g'')))"

text \<open>\<open>func NewGame() *Game\<close>; the argument \<open>r\<close> is the state of the random source.\<close>

definition NewGame :: "Consts \<Rightarrow> Rand \<Rightarrow> Game option" where
  "NewGame c r = do {
     let game = \<lparr>board = newBoard c, nextPiece = None, pieces = tetrisPieces,
                 paused = False, over = False, dropDelayMillis = 0, ticker = None,
                 score = 0, rand = r\<rparr>;
     (cur, game) \<leftarrow> Game_GeneratePiece game;
     let game = game\<lparr>board := (board game)\<lparr>currentPiece := cur\<rparr>\<rparr>;
     let game = game\<lparr>board := (board game)\<lparr>currentPosition := Vector (initialX c) 0\<rparr>\<rparr>;
     (nxt, game) \<leftarrow> Game_GeneratePiece game;
     let game = game\<lparr>nextPiece := nxt\<rparr>;
     let game = game\<lparr>paused := False\<rparr>;
     let game = game\<lparr>over := False\<rparr>;
     let game = game\<lparr>score := 0\<rparr>;
     Some (Game_startTicker game)
   }"

text \<open>
  Go's \<open>int\<close> is 64 bits wide on the platforms of the program: \<open>wrap64 k\<close> is the value
  that a two's complement 64-bit integer holds after an operation whose exact result is
  \<open>k\<close>.
\<close>

definition wrap64 :: "int \<Rightarrow> int" where
  "wrap64 k = (k + 2 ^ 63) mod 2 ^ 64 - 2 ^ 63"

text \<open>
  \<open>int(points)\<close> for \<open>points := 100 * math.Pow(2, float64(k))\<close>: the float operations are
  exact on such values (a power of two times 100), and so is the conversion while the
  value is in the range of \<open>int\<close>; beyond it (also where the float is infinite) the
  result depends on the implementation.
\<close>

definition intOfPoints :: "Consts \<Rightarrow> nat \<Rightarrow> int" where
  "intOfPoints c k = (if (100 * 2 ^ k :: int) < 2 ^ 63 then 100 * 2 ^ k else hugePoints c)"

text \<open>
  \<open>func (game *Game) anchor()\<close>. The flicker animation only draws.
\<close>

definition Game_anchor :: "Consts \<Rightarrow> Game \<Rightarrow> Game option" where
  "Game_anchor c game = do {
     b \<leftarrow> Board_mergeCurrentPiece (Game.pieces game) (board game);
     let game = game\<lparr>board := b\<rparr>;
     let rowsCleared = Board_clearedRows (board game);
     let game =
       (if length rowsCleared > 0 then
          (let game = Game_stopTicker game;
               game = game\<lparr>board := Board_clearRows c (board game)\<rparr>;
               points = intOfPoints c (length rowsCleared - 1);
               game = game\<lparr>score := wrap64 (score game + points)\<rparr>
           in Game_startTicker game)
        else game);
     let game = game\<lparr>board := (board game)\<lparr>currentPiece := nextPiece game\<rparr>\<rparr>;
     let game = game\<lparr>board := (board game)\<lparr>currentPosition := Vector (initialX c) 0\<rparr>\<rparr>;
     (nxt, game) \<leftarrow> Game_GeneratePiece game;
     let game = game\<lparr>nextPiece := nxt\<rparr>;
     p \<leftarrow> deref (Game.pieces game) (nextPiece game);
     let game = game\<lparr>pieces := assign (Game.pieces game) (nextPiece game) (p\<lparr>currentRotation := 0\<rparr>)\<rparr>;
     coll \<leftarrow> Board_currentPieceInCollision c (Game.pieces game) (board game);
     Some (if coll then game\<lparr>over := True\<rparr> else game)
   }"

text \<open>\<open>func (game *Game) Move(where Direction)\<close>.\<close>

definition Game_Move :: "Consts \<Rightarrow> Game \<Rightarrow> Direction \<Rightarrow> Game option" where
  "Game_Move c game wh = do {
     let translation =
       (case wh of Down \<Rightarrow> Vector 0 1 | Left \<Rightarrow> Vector (- 1) 0 | Right \<Rightarrow> Vector 1 0
        | Up \<Rightarrow> Vector 0 0);
     (b, moved) \<leftarrow> Board_moveIfPossible c (Game.pieces game) (board game) translation;
     let game = game\<lparr>board := b\<rparr>;
     if wh = Down \<and> \<not> moved then Game_anchor c game else Some game
   }"

text \<open>\<open>func (game *Game) QuickDrop()\<close>.\<close>

definition Game_QuickDrop :: "Consts \<Rightarrow> Game \<Rightarrow> Game option" where
  "Game_QuickDrop c game = do {
     b \<leftarrow> Board_dropLoop c (Game.pieces game) (board game);
     Game_anchor c (game\<lparr>board := b\<rparr>)
   }"

text \<open>\<open>func (game *Game) Rotate()\<close>: both calls go through the pointer \<open>game.board.currentPiece\<close>.\<close>

definition Game_Rotate :: "Consts \<Rightarrow> Game \<Rightarrow> Game option" where
  "Game_Rotate c game = do {
     p \<leftarrow> deref (Game.pieces game) (currentPiece (board game));
     p \<leftarrow> Piece_rotate p;
     let game = game\<lparr>pieces := assign (Game.pieces game) (currentPiece (board game)) p\<rparr>;
     coll \<leftarrow> Board_currentPieceInCollision c (Game.pieces game) (board game);
     if coll then do {
       p \<leftarrow> deref (Game.pieces game) (currentPiece (board game));
       p \<leftarrow> Piece_unrotate p;
       Some (game\<lparr>pieces := assign (Game.pieces game) (currentPiece (board game)) p\<rparr>)
     } else Some game
   }"

text \<open>
  Modelled from the spec: the game's counter-clockwise rotation is missing from the sources
  (of it only \<open>Piece.unrotate\<close> is there). Advances the piece's rotation by -1 (mod the
  rotation-state count); if the resulting position collides, reverts to the prior rotation
  index.
\<close>

definition Game_RotateCCW :: "Consts \<Rightarrow> Game \<Rightarrow> Game option" where
  "Game_RotateCCW c game = do {
     p \<leftarrow> deref (Game.pieces game) (currentPiece (board game));
     let prior = currentRotation p;
     p \<leftarrow> Piece_unrotate p;
     let game = game\<lparr>pieces := assign (Game.pieces game) (currentPiece (board game)) p\<rparr>;
     coll \<leftarrow> Board_currentPieceInCollision c (Game.pieces game) (board game);
     if coll then do {
       p \<leftarrow> deref (Game.pieces game) (currentPiece (board game));
       Some (game\<lparr>pieces := assign (Game.pieces game) (currentPiece (board game))
                               (p\<lparr>currentRotation := prior\<rparr>)\<rparr>)
     } else Some game
   }"

text \<open>
  Modelled from the spec: the game's rotation by 180 degrees is missing from the sources (of
  it only \<open>Piece.dblrotate\<close> is there). Advances the piece's rotation by +2 (mod the
  rotation-state count); if the resulting position collides, reverts to the prior rotation
  index.
\<close>

definition Game_Rotate180 :: "Consts \<Rightarrow> Game \<Rightarrow> Game option" where
  "Game_Rotate180 c game = do {
     p \<leftarrow> deref (Game.pieces game) (currentPiece (board game));
     let prior = currentRotation p;
     p \<leftarrow> Piece_dblrotate p;
     let game = game\<lparr>pieces := assign (Game.pieces game) (currentPiece (board game)) p\<rparr>;
     coll \<leftarrow> Board_currentPieceInCollision c (Game.pieces game) (board game);
     if coll then do {
       p \<leftarrow> deref (Game.pieces game) (currentPiece (board game));
       Some (game\<lparr>pieces := assign (Game.pieces game) (currentPiece (board game))
                               (p\<lparr>currentRotation := prior\<rparr>)\<rparr>)
     } else Some game
   }"

text \<open>The game with the rotation index of the falling piece set to \<open>k\<close>.\<close>

definition withRotation :: "Game \<Rightarrow> int \<Rightarrow> Game" where
  "withRotation game k =
     (case deref (Game.pieces game) (currentPiece (board game)) of
        None \<Rightarrow> game
      | Some p \<Rightarrow>
          game\<lparr>pieces := assign (Game.pieces game) (currentPiece (board game))
                             (p\<lparr>currentRotation := k\<rparr>)\<rparr>)"

text \<open>\<open>func (game *Game) PauseToggle()\<close>.\<close>

definition Game_PauseToggle :: "Game \<Rightarrow> Game" where
  "Game_PauseToggle game =
     (let game = (if paused game then Game_startTicker game else Game_stopTicker game)
      in game\<lparr>paused := \<not> paused game\<rparr>)"

text \<open>A game event, generated by user input or by the game ticker.\<close>

datatype GameEvent = MoveLeft | MoveRight | MoveDown | Rotate | QuickDrop | Pause | Quit | Redraw

text \<open>
  Where \<open>Start\<close> is: in its event loop, past the loop (\<open>for waitForUserEvent() != Quit {}\<close>
  under the game-over overlay), or returned.
\<close>

datatype Control = InLoop | GameOver | Returned

text \<open>The end of one iteration of the loop: \<open>if game.over { break gameOver }\<close>.\<close>

definition loopEnd :: "Game \<Rightarrow> Control \<times> Game" where
  "loopEnd game = (if over game then GameOver else InLoop, game)"

text \<open>One iteration of the loop of \<open>Start\<close>, on the event that the \<open>select\<close> received.\<close>

definition Game_loopBody :: "Consts \<Rightarrow> Game \<Rightarrow> GameEvent \<Rightarrow> (Control \<times> Game) option" where
  "Game_loopBody c game event =
     (if paused game then
        (case event of
           Pause \<Rightarrow> Some (loopEnd (Game_PauseToggle game))
         | Quit \<Rightarrow> Some (Returned, game)
         | Redraw \<Rightarrow> Some (loopEnd game)
         | _ \<Rightarrow> Some (loopEnd game))
      else
        (case event of
           MoveLeft \<Rightarrow> map_option loopEnd (Game_Move c game Left)
         | MoveRight \<Rightarrow> map_option loopEnd (Game_Move c game Right)
         | MoveDown \<Rightarrow> map_option loopEnd (Game_Move c game Down)
         | QuickDrop \<Rightarrow> map_option loopEnd (Game_QuickDrop c game)
         | Rotate \<Rightarrow> map_option loopEnd (Game_Rotate c game)
         | Pause \<Rightarrow> Some (loopEnd (Game_PauseToggle game))
         | Quit \<Rightarrow> Some (Returned, game)
         | Redraw \<Rightarrow> Some (loopEnd game)))"

text \<open>\<open>func (game *Game) Start()\<close>, one event at a time.\<close>

definition Game_Start_step ::
  "Consts \<Rightarrow> Control \<times> Game \<Rightarrow> GameEvent \<Rightarrow> (Control \<times> Game) option" where
  "Game_Start_step c s event =
     (case fst s of
        InLoop \<Rightarrow> Game_loopBody c (snd s) event
      | GameOver \<Rightarrow> Some (if event = Quit then Returned else GameOver, snd s)
      | Returned \<Rightarrow> Some s)"

fun Game_Start :: "Consts \<Rightarrow> Control \<times> Game \<Rightarrow> GameEvent list \<Rightarrow> (Control \<times> Game) option" where
  "Game_Start c s [] = Some s"
| "Game_Start c s (event # events) =
     (case Game_Start_step c s event of
        None \<Rightarrow> None
      | Some s' \<Rightarrow> Game_Start c s' events)"

text \<open>
  What every game that \<open>NewGame\<close> builds and \<open>Start\<close> runs keeps: both piece pointers
  point into the piece slice, and every piece has its rotation index among its rotation
  states, none of which is without cells.
\<close>

definition pieceOK :: "Piece \<Rightarrow> bool" where
  "pieceOK p \<longleftrightarrow>
     0 \<le> currentRotation p \<and> currentRotation p < int (length (rotations p))
     \<and> list_all (\<lambda>inst. inst \<noteq> []) (rotations p)"

definition wellFormed :: "Game \<Rightarrow> bool" where
  "wellFormed game \<longleftrightarrow>
     deref (Game.pieces game) (currentPiece (board game)) \<noteq> None
     \<and> deref (Game.pieces game) (nextPiece game) \<noteq> None
     \<and> list_all pieceOK (Game.pieces game)"

text \<open>The fields of a piece that describe its kind: all but the rotation index.\<close>

definition kindOf :: "Piece \<Rightarrow> string \<times> PieceInstance list \<times> Vector \<times> Attribute" where
  "kindOf p = (name p, rotations p, initialLocation p, color p)"

text \<open>The three stages of \<open>anchor\<close> after the merge: clearing and scoring, bringing in the
  next piece, and choosing the piece after it.\<close>

definition scored :: "Consts \<Rightarrow> Game \<Rightarrow> Board \<Rightarrow> Game" where
  "scored c game b =
     (let n = length (Board_clearedRows b)
      in if 0 < n
         then Game_startTicker
                (game\<lparr>ticker := None, board := Board_clearRows c b,
                      score := wrap64 (score game + intOfPoints c (n - 1))\<rparr>)
         else game\<lparr>board := b\<rparr>)"

definition bringIn :: "Consts \<Rightarrow> Game \<Rightarrow> Game" where
  "bringIn c g = g\<lparr>board := (board g)\<lparr>currentPiece := nextPiece g,
                                       currentPosition := Vector (initialX c) 0\<rparr>\<rparr>"

definition settle :: "Consts \<Rightarrow> Game \<Rightarrow> PiecePtr \<Rightarrow> Game option" where
  "settle c g nxt =
     Option.bind (deref (Game.pieces g) nxt) (\<lambda>p.
       let g6 = g\<lparr>nextPiece := nxt,
                  pieces := assign (Game.pieces g) nxt (p\<lparr>currentRotation := 0\<rparr>)\<rparr>
       in Option.bind (Board_currentPieceInCollision c (Game.pieces g6) (board g6))
            (\<lambda>coll. Some (if coll then g6\<lparr>over := True\<rparr> else g6)))"

text \<open>The \<open>j\<close>-th run of 7 draws of a draw sequence that starts at a bag boundary.\<close>

definition chunk :: "nat \<Rightarrow> int list \<Rightarrow> int list" where
  "chunk j ds = take 7 (drop (7 * j) ds)"





section \<open>Concrete states\<close>

text \<open>A random source that always produces 0, a board of 2 by 4 cells, and the game that
  \<open>NewGame\<close> builds from them: the piece O in play at the top left, O next.\<close>

definition zeroRand :: Rand where
  "zeroRand = (\<lambda>k. 0)"

definition smallConsts :: Consts where
  "smallConsts = \<lparr>width = 2, height = 4, initialX = 0, hugePoints = - (2 ^ 63)\<rparr>"

definition smallGame :: Game where
  "smallGame =
     \<lparr>board = \<lparr>cells = [[None, None], [None, None], [None, None], [None, None]],
               currentPiece = Some 0, currentPosition = Vector 0 0\<rparr>,
      nextPiece = Some 0, pieces = tetrisPieces, paused = False, over = False,
      dropDelayMillis = 800, ticker = Some 800, score = 0, rand = zeroRand\<rparr>"

text \<open>The example of the specification: height 4, rows 1 and 3 full, rows 0 and 2 partly filled.\<close>

definition exampleBoard :: Board where
  "exampleBoard =
     \<lparr>cells = [[Some ColorRed, None],
               [Some ColorCyan, Some ColorCyan],
               [None, Some ColorBlue],
               [Some ColorCyan, Some ColorCyan]],
      currentPiece = Some 0, currentPosition = Vector 0 0\<rparr>"

text \<open>A board of 4 by 4 cells with the piece T in play at the top left, and the same with T
  two rows lower, where it cannot turn.\<close>

definition wideConsts :: Consts where
  "wideConsts = \<lparr>width = 4, height = 4, initialX = 0, hugePoints = - (2 ^ 63)\<rparr>"

definition wideGame :: Game where
  "wideGame =
     \<lparr>board = \<lparr>cells = [[None, None, None, None], [None, None, None, None],
                        [None, None, None, None], [None, None, None, None]],
               currentPiece = Some 3, currentPosition = Vector 0 0\<rparr>,
      nextPiece = Some 0, pieces = tetrisPieces, paused = False, over = False,
      dropDelayMillis = 800, ticker = Some 800, score = 0, rand = zeroRand\<rparr>"

definition lowGame :: Game where
  "lowGame = wideGame\<lparr>board := (board wideGame)\<lparr>currentPosition := Vector 0 2\<rparr>\<rparr>"

text \<open>The small game with its piece O on the bottom of the board, where it fills two rows.\<close>

definition landedGame :: Game where
  "landedGame = smallGame\<lparr>board := (board smallGame)\<lparr>currentPosition := Vector 0 2\<rparr>\<rparr>"

text \<open>A board of 10 by 18 cells with pieces coming in at column 3, a random source that
  always draws the piece L, and the game that \<open>NewGame\<close> builds from them.\<close>

definition stdConsts :: Consts where
  "stdConsts = \<lparr>width = 10, height = 18, initialX = 3, hugePoints = - (2 ^ 63)\<rparr>"

definition lRand :: Rand where
  "lRand = (\<lambda>k. 4)"

definition lGame :: Game where
  "lGame =
     \<lparr>board = \<lparr>cells = replicate 18 (replicate 10 None),
               currentPiece = Some 4, currentPosition = Vector 3 0\<rparr>,
      nextPiece = Some 4, pieces = tetrisPieces, paused = False, over = False,
      dropDelayMillis = 800, ticker = Some 800, score = 0, rand = lRand\<rparr>"

text \<open>A random source that draws the piece T and then the piece O for ever: \<open>NewGame\<close>
  builds \<open>wideGame\<close> from it.\<close>

definition tRand :: Rand where
  "tRand = (\<lambda>k. if k = 0 then 3 else 0)"

text \<open>A bag at a bag boundary: the countdown is negative.\<close>

definition emptyBag :: Bag where
  "emptyBag = \<lparr>pieceNumber = - 1, pieces = [], bagNumber = 0\<rparr>"

text \<open>A random source that draws the piece T twice and then the piece O, and what a run of
  \<open>Start\<close> leaves in play: the piece pointer, its position and its rotation index.\<close>

definition ttRand :: Rand where
  "ttRand = (\<lambda>k. if k = 2 then 0 else 3)"

definition enteredPiece ::
  "(Control \<times> Game) option \<Rightarrow> (PiecePtr \<times> Vector \<times> int option) option" where
  "enteredPiece s =
     map_option (\<lambda>(ctl, game).
        (currentPiece (board game), currentPosition (board game),
         map_option currentRotation (deref (Game.pieces game) (currentPiece (board game))))) s"



section \<open>Auxiliary facts\<close>

lemma sdiv_nonneg: "0 \<le> (s::int) \<Longrightarrow> s sdiv 5 = s div 5"
  by (simp add: signed_divide_int_def sgn_if)

lemma filter_index_length:
  "length (filter (\<lambda>y. P (xs ! y)) [0..<length xs]) = length (filter P xs)"
proof -
  have "filter P (map ((!) xs) [0..<length xs])
          = map ((!) xs) (filter (\<lambda>y. P (xs ! y)) [0..<length xs])"
    by (simp add: filter_map comp_def)
  then have "length (filter P (map ((!) xs) [0..<length xs]))
               = length (filter (\<lambda>y. P (xs ! y)) [0..<length xs])"
    by simp
  then show ?thesis by (simp add: map_nth)
qed

lemma length_minus_kept:
  "length xs - length (filter (\<lambda>x. \<not> P x) xs) = length (filter P xs)"
  using sum_length_filter_compl [of P xs] by simp

text \<open>A kept row lands below the new empty rows, after the kept rows that were above it.\<close>

lemma kept_nth:
  assumes "i < length xs" and "\<not> P (xs ! i)"
  shows "(replicate (length (filter P xs)) e @ filter (\<lambda>x. \<not> P x) xs)
           ! (i + length (filter P (drop (Suc i) xs))) = xs ! i"
proof -
  let ?pre = "take i xs" and ?post = "drop (Suc i) xs"
  have xs: "xs = ?pre @ xs ! i # ?post"
    using assms(1) by (rule id_take_nth_drop)
  have cntP: "length (filter P xs) = length (filter P ?pre) + length (filter P ?post)"
    by (subst xs) (simp add: assms(2))
  have keep: "filter (\<lambda>x. \<not> P x) xs
                = filter (\<lambda>x. \<not> P x) ?pre @ xs ! i # filter (\<lambda>x. \<not> P x) ?post"
    by (subst xs) (simp add: assms(2))
  have pre: "length (filter P ?pre) + length (filter (\<lambda>x. \<not> P x) ?pre) = i"
    using sum_length_filter_compl [of P ?pre] assms(1) by simp
  have idx: "i + length (filter P ?post)
               = length (filter P xs) + length (filter (\<lambda>x. \<not> P x) ?pre)"
    using cntP pre by simp
  have "(replicate (length (filter P xs)) e @ filter (\<lambda>x. \<not> P x) xs)
           ! (length (filter P xs) + length (filter (\<lambda>x. \<not> P x) ?pre))
        = filter (\<lambda>x. \<not> P x) xs ! length (filter (\<lambda>x. \<not> P x) ?pre)"
    by (simp add: nth_append)
  also have "\<dots> = xs ! i"
    by (subst keep) (simp add: nth_append)
  finally show ?thesis by (simp only: idx)
qed

lemma smod_nonneg: "0 \<le> (k::int) \<Longrightarrow> 0 < n \<Longrightarrow> k smod n = k mod n"
  by (simp add: signed_modulo_int_def sgn_if)

lemma smod_fix: "0 < (n::int) \<Longrightarrow> (if k smod n < 0 then k smod n + n else k smod n) = k mod n"
proof (cases "0 \<le> k")
  case True
  assume "0 < n"
  then have "0 \<le> k mod n" by simp
  with True \<open>0 < n\<close> show ?thesis by (simp add: smod_nonneg not_less)
next
  case False
  assume n: "0 < n"
  from False have k: "k < 0" by simp
  have sm: "k smod n = - ((- k) mod n)"
    using k n by (simp add: signed_modulo_int_def sgn_if)
  have m: "k mod n = (if (- k) mod n = 0 then 0 else n - (- k) mod n)"
    using n by (smt (verit) mod_minus_eq minus_minus zmod_zminus1_eq_if)
  have nn: "0 \<le> (- k) mod n" using n by simp
  show ?thesis using sm m nn by auto
qed

lemma Piece_unrotate_mod:
  "rotations q \<noteq> [] \<Longrightarrow>
     Piece_unrotate q
       = Some (q\<lparr>currentRotation := (currentRotation q - 1) mod int (length (rotations q))\<rparr>)"
  using smod_fix [of "int (length (rotations q))" "currentRotation q - 1"]
  by (auto simp: Piece_unrotate_def Let_def split: if_splits)

lemma Piece_dblrotate_mod:
  "rotations q \<noteq> [] \<Longrightarrow>
     Piece_dblrotate q
       = Some (q\<lparr>currentRotation := (currentRotation q + 2) mod int (length (rotations q))\<rparr>)"
  using smod_fix [of "int (length (rotations q))" "currentRotation q + 2"]
  by (auto simp: Piece_dblrotate_def Let_def split: if_splits)

lemma Piece_rotate_mod:
  "rotations q \<noteq> [] \<Longrightarrow> - 1 \<le> currentRotation q \<Longrightarrow>
     Piece_rotate q
       = Some (q\<lparr>currentRotation := (currentRotation q + 1) mod int (length (rotations q))\<rparr>)"
  by (simp add: Piece_rotate_def smod_nonneg)

lemma deref_assign:
  "deref ps ptr = Some p \<Longrightarrow> deref (assign ps ptr q) ptr = Some q"
  by (auto simp: deref_def assign_def split: option.splits if_splits)

lemma assign_assign: "assign (assign ps ptr q) ptr q' = assign ps ptr q'"
  by (simp add: assign_def split: option.splits)

lemma assign_same: "deref ps ptr = Some p \<Longrightarrow> assign ps ptr p = ps"
  by (auto simp: deref_def assign_def split: option.splits if_splits)

lemma collision_defined:
  assumes "deref ps (currentPiece b) = Some p"
    and "0 \<le> currentRotation p" and "currentRotation p < int (length (rotations p))"
  shows "\<exists>coll. Board_currentPieceInCollision c ps b = Some coll"
  using assms by (simp add: Board_currentPieceInCollision_def Piece_instance_def)


lemmas sample_defs = wideGame_def lowGame_def wideConsts_def tetrisPieces_def deref_def assign_def
  withRotation_def Board_currentPieceInCollision_def Piece_instance_def cellAt_def Vector_plus_def

lemma GeneratePiece_Some:
  assumes "Game.pieces game \<noteq> []"
  shows "\<exists>i. i < length (Game.pieces game) \<and>
           Game_GeneratePiece game = Some (Some i, game\<lparr>rand := (\<lambda>k. rand game (Suc k))\<rparr>)"
proof -
  let ?n = "int (length (Game.pieces game))"
  have n: "0 < ?n" using assms by simp
  have "nat (int (rand game 0) mod ?n) < length (Game.pieces game)"
    using n by (simp add: nat_less_iff)
  then show ?thesis using n
    by (simp add: Game_GeneratePiece_def rand_Intn_def)
qed

lemma GeneratePiece_cases:
  assumes "Game_GeneratePiece game = Some (ptr, game')"
  obtains i where "i < length (Game.pieces game)" and "ptr = Some i"
    and "game' = game\<lparr>rand := (\<lambda>k. rand game (Suc k))\<rparr>"
proof (cases "Game.pieces game = []")
  case True
  with assms show ?thesis by (simp add: Game_GeneratePiece_def rand_Intn_def)
next
  case False
  from GeneratePiece_Some [OF False] assms that show ?thesis by auto
qed

lemma anchor_unfold:
  "Game_anchor c game =
     Option.bind (Board_mergeCurrentPiece (Game.pieces game) (board game)) (\<lambda>b.
       Option.bind (Game_GeneratePiece (bringIn c (scored c game b)))
         (\<lambda>(nxt, g4). settle c g4 nxt))"
proof (cases "Board_mergeCurrentPiece (Game.pieces game) (board game)")
  case None
  then show ?thesis by (simp add: Game_anchor_def)
next
  case (Some b)
  show ?thesis
  proof (cases "Board_clearedRows b = []")
    case True
    with Some show ?thesis
      unfolding Game_anchor_def scored_def bringIn_def settle_def Game_stopTicker_def
      by (simp add: Let_def split_def cong: if_cong)
  next
    case False
    with Some show ?thesis
      unfolding Game_anchor_def scored_def bringIn_def settle_def Game_stopTicker_def
      by (simp add: Let_def split_def cong: if_cong)
  qed
qed

lemma deref_Some_nth:
  "deref ps ptr = Some p \<Longrightarrow> \<exists>i. ptr = Some i \<and> i < length ps \<and> p = ps ! i"
  by (auto simp: deref_def split: option.splits if_splits)

lemma deref_pieceOK: "list_all pieceOK ps \<Longrightarrow> deref ps ptr = Some p \<Longrightarrow> pieceOK p"
  by (auto dest!: deref_Some_nth simp: list_all_length)

lemma assign_pieceOK: "list_all pieceOK ps \<Longrightarrow> pieceOK q \<Longrightarrow> list_all pieceOK (assign ps ptr q)"
  using set_update_subset_insert [of ps _ q]
  by (auto simp: assign_def list_all_iff split: option.splits)

lemma deref_assign_defined: "deref (assign ps ptr q) ptr' \<noteq> None \<longleftrightarrow> deref ps ptr' \<noteq> None"
  by (auto simp: deref_def assign_def split: option.splits if_splits)

lemma instance_defined: "pieceOK p \<Longrightarrow> \<exists>inst. Piece_instance p = Some inst \<and> inst \<noteq> []"
  by (auto simp: pieceOK_def Piece_instance_def list_all_length)

lemma merge_defined:
  assumes "list_all pieceOK ps" and "deref ps (currentPiece b) \<noteq> None"
  shows "\<exists>b'. Board_mergeCurrentPiece ps b = Some b' \<and> currentPiece b' = currentPiece b
               \<and> currentPosition b' = currentPosition b"
proof -
  from assms(2) obtain p where p: "deref ps (currentPiece b) = Some p" by auto
  from deref_pieceOK [OF assms(1) p] instance_defined
  obtain inst where "Piece_instance p = Some inst" by blast
  with p show ?thesis by (simp add: Board_mergeCurrentPiece_def)
qed

lemma collision_defined':
  assumes "list_all pieceOK ps" and "deref ps (currentPiece b) \<noteq> None"
  shows "\<exists>coll. Board_currentPieceInCollision c ps b = Some coll"
proof -
  from assms(2) obtain p where p: "deref ps (currentPiece b) = Some p" by auto
  from deref_pieceOK [OF assms(1) p] instance_defined
  obtain inst where "Piece_instance p = Some inst" by blast
  with p show ?thesis by (simp add: Board_currentPieceInCollision_def)
qed

lemma scored_fields:
  "Game.pieces (scored c game b) = Game.pieces game"
  "nextPiece (scored c game b) = nextPiece game"
  "currentPiece (board (scored c game b)) = currentPiece b"
  "over (scored c game b) = over game"
  "paused (scored c game b) = paused game"
  by (simp_all add: scored_def Let_def Game_startTicker_def Board_clearRows_def)

lemma settle_wf:
  assumes ok: "list_all pieceOK (Game.pieces g)"
    and cur: "deref (Game.pieces g) (currentPiece (board g)) \<noteq> None"
    and nxt: "i < length (Game.pieces g)"
  shows "\<exists>g'. settle c g (Some i) = Some g' \<and> wellFormed g' \<and> score g' = score g
              \<and> paused g' = paused g"
proof -
  let ?p = "Game.pieces g ! i"
  let ?ps = "assign (Game.pieces g) (Some i) (?p\<lparr>currentRotation := 0\<rparr>)"
  have d: "deref (Game.pieces g) (Some i) = Some ?p" using nxt by (simp add: deref_def)
  have "pieceOK ?p" by (rule deref_pieceOK [OF ok d])
  then have p0: "pieceOK (?p\<lparr>currentRotation := 0\<rparr>)" by (auto simp: pieceOK_def)
  have ok': "list_all pieceOK ?ps" by (rule assign_pieceOK [OF ok p0])
  have cur': "deref ?ps (currentPiece (board g)) \<noteq> None"
    using cur deref_assign_defined by blast
  have nxt': "deref ?ps (Some i) \<noteq> None"
    using d deref_assign_defined [of "Game.pieces g" "Some i" _ "Some i"] by simp
  from collision_defined' [OF ok' cur', of c]
  obtain coll where coll: "Board_currentPieceInCollision c ?ps (board g) = Some coll" by blast
  show ?thesis
    using d coll ok' cur' nxt' by (simp add: settle_def Let_def wellFormed_def)
qed

lemma anchor_wf:
  assumes "wellFormed game"
  shows "\<exists>game'. Game_anchor c game = Some game' \<and> wellFormed game'
                 \<and> paused game' = paused game"
proof -
  from assms have ok: "list_all pieceOK (Game.pieces game)"
    and cur: "deref (Game.pieces game) (currentPiece (board game)) \<noteq> None"
    and nxt: "deref (Game.pieces game) (nextPiece game) \<noteq> None"
    by (simp_all add: wellFormed_def)
  from merge_defined [OF ok cur]
  obtain b where b: "Board_mergeCurrentPiece (Game.pieces game) (board game) = Some b" by blast
  let ?g3 = "bringIn c (scored c game b)"
  have ps3: "Game.pieces ?g3 = Game.pieces game" and cur3: "currentPiece (board ?g3) = nextPiece game"
    and pa3: "paused ?g3 = paused game"
    by (simp_all add: bringIn_def scored_fields)
  have ne: "Game.pieces ?g3 \<noteq> []" using cur ps3 by (auto simp: deref_def split: option.splits)
  from GeneratePiece_Some [OF ne]
  obtain i where i: "i < length (Game.pieces ?g3)"
    and gen: "Game_GeneratePiece ?g3 = Some (Some i, ?g3\<lparr>rand := (\<lambda>k. rand ?g3 (Suc k))\<rparr>)"
    by blast
  let ?g4 = "?g3\<lparr>rand := (\<lambda>k. rand ?g3 (Suc k))\<rparr>"
  have "\<exists>g'. settle c ?g4 (Some i) = Some g' \<and> wellFormed g' \<and> score g' = score ?g4
              \<and> paused g' = paused ?g4"
    by (rule settle_wf) (use ok nxt i ps3 cur3 in simp_all)
  then obtain g' where "settle c ?g4 (Some i) = Some g'" "wellFormed g'" "score g' = score ?g4"
    "paused g' = paused ?g4"
    by blast
  with b gen pa3 show ?thesis by (simp add: anchor_unfold)
qed

lemma moveIfPossible_value:
  assumes "deref ps (currentPiece b) = Some p" and "Piece_instance p = Some inst"
  shows "Board_moveIfPossible c ps b d =
           Some (if list_all (\<lambda>pt. cellFree c (cells b)
                                (Vector_plus pt (Vector_plus (currentPosition b) d))) inst
                 then (b\<lparr>currentPosition := Vector_plus (currentPosition b) d\<rparr>, True)
                 else (b, False))"
  using assms
  by (auto simp: Board_moveIfPossible_def Board_canPlace_def Piece_instance_def split: if_splits)

lemma move_defined:
  assumes "list_all pieceOK ps" and "deref ps (currentPiece b) \<noteq> None"
  shows "\<exists>b' m. Board_moveIfPossible c ps b d = Some (b', m) \<and> currentPiece b' = currentPiece b"
proof -
  from assms(2) obtain p where p: "deref ps (currentPiece b) = Some p" by auto
  from deref_pieceOK [OF assms(1) p] instance_defined
  obtain inst where "Piece_instance p = Some inst" by blast
  from moveIfPossible_value [OF p this, of c d] show ?thesis by auto
qed

text \<open>The loop of \<open>QuickDrop\<close> ends: each round moves the first cell of the piece one row
  closer to the bottom row.\<close>

lemma dropLoop_defined:
  assumes ok: "list_all pieceOK ps" and cur: "deref ps (currentPiece b) \<noteq> None"
  shows "\<exists>b'. Board_dropLoop c ps b = Some b' \<and> currentPiece b' = currentPiece b
              \<and> cells b' = cells b"
proof -
  from cur obtain p where p: "deref ps (currentPiece b) = Some p" by auto
  from deref_pieceOK [OF ok p] instance_defined
  obtain inst where inst: "Piece_instance p = Some inst" and ne: "inst \<noteq> []" by blast
  have "\<exists>b'. Board_dropLoop c ps b = Some b' \<and> currentPiece b' = currentPiece b
              \<and> cells b' = cells b"
    if "currentPiece b = ptr" and "deref ps ptr = Some p"
      and "n = nat (height c - vy (currentPosition b) - vy (hd inst))" for b ptr n
    using that
  proof (induction n arbitrary: b rule: less_induct)
    case (less n)
    let ?free = "list_all (\<lambda>pt. cellFree c (cells b)
                    (Vector_plus pt (Vector_plus (currentPosition b) (Vector 0 1)))) inst"
    let ?b1 = "b\<lparr>currentPosition := Vector_plus (currentPosition b) (Vector 0 1)\<rparr>"
    have d: "deref ps (currentPiece b) = Some p" using less.prems by simp
    note mv = moveIfPossible_value [OF d inst, of c "Vector 0 1"]
    show ?case
    proof (cases ?free)
      case False
      with mv show ?thesis by (subst Board_dropLoop.simps) simp
    next
      case True
      from True ne have "cellFree c (cells b)
          (Vector_plus (hd inst) (Vector_plus (currentPosition b) (Vector 0 1)))"
        by (cases inst) simp_all
      then have low: "vy (hd inst) + (vy (currentPosition b) + 1) < height c"
        by (simp add: cellFree_def Vector_plus_def)
      have "nat (height c - vy (currentPosition ?b1) - vy (hd inst)) < n"
        using low less.prems(3) by (simp add: Vector_plus_def)
      from less.IH [OF this, of ?b1] less.prems(1,2)
      obtain b' where "Board_dropLoop c ps ?b1 = Some b'" and "currentPiece b' = currentPiece b"
        and "cells b' = cells b"
        by auto
      with mv True show ?thesis by (subst Board_dropLoop.simps) simp
    qed
  qed
  from this [OF refl p refl] show ?thesis .
qed

lemma Move_wf:
  assumes "wellFormed game"
  shows "\<exists>game'. Game_Move c game wh = Some game' \<and> wellFormed game'
                 \<and> paused game' = paused game"
proof -
  from assms have ok: "list_all pieceOK (Game.pieces game)"
    and cur: "deref (Game.pieces game) (currentPiece (board game)) \<noteq> None"
    and nxt: "deref (Game.pieces game) (nextPiece game) \<noteq> None"
    by (simp_all add: wellFormed_def)
  let ?t = "case wh of Down \<Rightarrow> Vector 0 1 | Left \<Rightarrow> Vector (- 1) 0 | Right \<Rightarrow> Vector 1 0
            | Up \<Rightarrow> Vector 0 0"
  from move_defined [OF ok cur, of c ?t]
  obtain b' m where mv: "Board_moveIfPossible c (Game.pieces game) (board game) ?t = Some (b', m)"
    and cp: "currentPiece b' = currentPiece (board game)"
    by blast
  have wf1: "wellFormed (game\<lparr>board := b'\<rparr>)"
    using ok cur nxt cp by (simp add: wellFormed_def)
  show ?thesis
  proof (cases "wh = Down \<and> \<not> m")
    case True
    from anchor_wf [OF wf1, of c] True mv show ?thesis
      by (auto simp: Game_Move_def Let_def)
  next
    case False
    with mv wf1 show ?thesis by (auto simp: Game_Move_def Let_def)
  qed
qed

lemma QuickDrop_wf:
  assumes "wellFormed game"
  shows "\<exists>game'. Game_QuickDrop c game = Some game' \<and> wellFormed game'
                 \<and> paused game' = paused game"
proof -
  from assms have ok: "list_all pieceOK (Game.pieces game)"
    and cur: "deref (Game.pieces game) (currentPiece (board game)) \<noteq> None"
    and nxt: "deref (Game.pieces game) (nextPiece game) \<noteq> None"
    by (simp_all add: wellFormed_def)
  from dropLoop_defined [OF ok cur, of c]
  obtain b' where dl: "Board_dropLoop c (Game.pieces game) (board game) = Some b'"
    and cp: "currentPiece b' = currentPiece (board game)"
    by blast
  have wf1: "wellFormed (game\<lparr>board := b'\<rparr>)"
    using ok cur nxt cp by (simp add: wellFormed_def)
  from anchor_wf [OF wf1, of c] dl show ?thesis
    by (auto simp: Game_QuickDrop_def)
qed

lemma Rotate_wf:
  assumes "wellFormed game"
  shows "\<exists>game'. Game_Rotate c game = Some game' \<and> wellFormed game' \<and> score game' = score game
                 \<and> paused game' = paused game"
proof -
  from assms have ok: "list_all pieceOK (Game.pieces game)"
    and cur: "deref (Game.pieces game) (currentPiece (board game)) \<noteq> None"
    and nxt: "deref (Game.pieces game) (nextPiece game) \<noteq> None"
    by (simp_all add: wellFormed_def)
  let ?ptr = "currentPiece (board game)"
  from cur obtain p where p: "deref (Game.pieces game) ?ptr = Some p" by auto
  have pk: "pieceOK p" by (rule deref_pieceOK [OF ok p])
  then have ne: "rotations p \<noteq> []" and lo: "- 1 \<le> currentRotation p"
    by (auto simp: pieceOK_def)
  let ?n = "int (length (rotations p))"
  have n: "0 < ?n" using ne by simp
  let ?p1 = "p\<lparr>currentRotation := (currentRotation p + 1) mod ?n\<rparr>"
  have rot: "Piece_rotate p = Some ?p1" by (rule Piece_rotate_mod [OF ne lo])
  have p1: "pieceOK ?p1" using pk n by (simp add: pieceOK_def)
  let ?ps1 = "assign (Game.pieces game) ?ptr ?p1"
  have ok1: "list_all pieceOK ?ps1" by (rule assign_pieceOK [OF ok p1])
  have cur1: "deref ?ps1 ?ptr \<noteq> None" and nxt1: "deref ?ps1 (nextPiece game) \<noteq> None"
    using cur nxt deref_assign_defined by blast+
  from collision_defined' [OF ok1 cur1, of c]
  obtain coll where coll: "Board_currentPieceInCollision c ?ps1 (board game) = Some coll" by blast
  let ?p2 = "?p1\<lparr>currentRotation := (currentRotation ?p1 - 1) mod ?n\<rparr>"
  have unrot: "Piece_unrotate ?p1 = Some ?p2" using Piece_unrotate_mod [of ?p1] ne by simp
  have p2: "pieceOK ?p2" using pk n by (simp add: pieceOK_def)
  let ?ps2 = "assign ?ps1 ?ptr ?p2"
  have ok2: "list_all pieceOK ?ps2" by (rule assign_pieceOK [OF ok1 p2])
  have cur2: "deref ?ps2 ?ptr \<noteq> None" and nxt2: "deref ?ps2 (nextPiece game) \<noteq> None"
    using cur1 nxt1 deref_assign_defined by blast+
  have d1: "deref ?ps1 ?ptr = Some ?p1" by (rule deref_assign [OF p])
  show ?thesis
  proof (cases coll)
    case True
    with p rot coll d1 unrot ok2 cur2 nxt2 show ?thesis
      by (simp add: Game_Rotate_def wellFormed_def)
  next
    case False
    with p rot coll ok1 cur1 nxt1 show ?thesis
      by (simp add: Game_Rotate_def wellFormed_def)
  qed
qed

lemma kind_assign:
  "deref ps ptr = Some p \<Longrightarrow> kindOf q = kindOf p \<Longrightarrow> map kindOf (assign ps ptr q) = map kindOf ps"
  by (auto dest!: deref_Some_nth simp: assign_def map_update list_update_same_conv)

lemma kind_rotation [simp]: "kindOf (p\<lparr>currentRotation := k\<rparr>) = kindOf p"
  by (simp add: kindOf_def)

lemma anchor_kind:
  assumes "Game_anchor c game = Some game'"
  shows "map kindOf (Game.pieces game') = map kindOf (Game.pieces game)"
  using assms unfolding Game_anchor_def
  by (auto simp: Let_def Game_stopTicker_def Game_startTicker_def Game_GeneratePiece_def
      rand_Intn_def kind_assign split: Option.bind_splits if_splits prod.splits)

lemma Move_kind:
  assumes "Game_Move c game wh = Some game'"
  shows "map kindOf (Game.pieces game') = map kindOf (Game.pieces game)"
  using assms unfolding Game_Move_def
  by (auto simp: Let_def dest!: anchor_kind split: Option.bind_splits if_splits prod.splits)

lemma QuickDrop_kind:
  assumes "Game_QuickDrop c game = Some game'"
  shows "map kindOf (Game.pieces game') = map kindOf (Game.pieces game)"
  using assms unfolding Game_QuickDrop_def
  by (auto dest!: anchor_kind split: Option.bind_splits)

lemma Rotate_kind:
  assumes "Game_Rotate c game = Some game'"
  shows "map kindOf (Game.pieces game') = map kindOf (Game.pieces game)"
proof -
  let ?ptr = "currentPiece (board game)"
  from assms obtain p p1 where p: "deref (Game.pieces game) ?ptr = Some p"
    and p1: "Piece_rotate p = Some p1"
    by (auto simp: Game_Rotate_def split: Option.bind_splits)
  have k1: "kindOf p1 = kindOf p"
    using p1 by (auto simp: Piece_rotate_def split: if_splits)
  let ?ps1 = "assign (Game.pieces game) ?ptr p1"
  have m1: "map kindOf ?ps1 = map kindOf (Game.pieces game)" by (rule kind_assign [OF p k1])
  have d1: "deref ?ps1 ?ptr = Some p1" by (rule deref_assign [OF p])
  have k2: "kindOf p2 = kindOf p1" if "Piece_unrotate p1 = Some p2" for p2
    using that by (auto simp: Piece_unrotate_def Let_def split: if_splits)
  from assms p p1 d1 have "game' = game\<lparr>pieces := ?ps1\<rparr>
      \<or> (\<exists>p2. Piece_unrotate p1 = Some p2 \<and> game' = game\<lparr>pieces := assign ?ps1 ?ptr p2\<rparr>)"
    by (auto simp: Game_Rotate_def Let_def split: Option.bind_splits if_splits)
  then show ?thesis
    using m1 kind_assign [OF d1 k2] by auto
qed

lemma PauseToggle_fields:
  "Game.pieces (Game_PauseToggle game) = Game.pieces game"
  "score (Game_PauseToggle game) = score game"
  "board (Game_PauseToggle game) = board game"
  "nextPiece (Game_PauseToggle game) = nextPiece game"
  by (simp_all add: Game_PauseToggle_def Game_startTicker_def Game_stopTicker_def Let_def)

lemma Move_score_side:
  assumes "Game_Move c game wh = Some game'" and "wh \<noteq> Down"
  shows "score game' = score game"
  using assms unfolding Game_Move_def
  by (auto simp: Let_def split: Option.bind_splits if_splits prod.splits)

lemma PauseToggle_wf: "wellFormed (Game_PauseToggle game) = wellFormed game"
  by (simp add: wellFormed_def PauseToggle_fields)

lemma loopBody_inv:
  assumes wf: "wellFormed game"
  shows "\<exists>ctl' game'. Game_loopBody c game event = Some (ctl', game') \<and> wellFormed game'
           \<and> (event \<notin> {MoveDown, QuickDrop} \<longrightarrow> score game' = score game)
           \<and> map kindOf (Game.pieces game') = map kindOf (Game.pieces game)"
proof (cases "paused game")
  case True
  with wf show ?thesis
    by (cases event)
       (simp_all add: Game_loopBody_def loopEnd_def PauseToggle_wf PauseToggle_fields)
next
  case False
  show ?thesis
  proof (cases event)
    case MoveLeft
    from Move_wf [OF wf, of c Left] obtain g' where
      "Game_Move c game Left = Some g'" "wellFormed g'" by blast
    with False MoveLeft Move_kind [of c game Left g'] Move_score_side [of c game Left g']
    show ?thesis by (simp add: Game_loopBody_def loopEnd_def)
  next
    case MoveRight
    from Move_wf [OF wf, of c Right] obtain g' where
      "Game_Move c game Right = Some g'" "wellFormed g'" by blast
    with False MoveRight Move_kind [of c game Right g'] Move_score_side [of c game Right g']
    show ?thesis by (simp add: Game_loopBody_def loopEnd_def)
  next
    case MoveDown
    from Move_wf [OF wf, of c Down] obtain g' where
      "Game_Move c game Down = Some g'" "wellFormed g'" by blast
    with False MoveDown Move_kind [of c game Down g']
    show ?thesis by (simp add: Game_loopBody_def loopEnd_def)
  next
    case Rotate
    from Rotate_wf [OF wf, of c] obtain g' where
      "Game_Rotate c game = Some g'" "wellFormed g'" "score g' = score game" by blast
    with False Rotate Rotate_kind [of c game g']
    show ?thesis by (simp add: Game_loopBody_def loopEnd_def)
  next
    case QuickDrop
    from QuickDrop_wf [OF wf, of c] obtain g' where
      "Game_QuickDrop c game = Some g'" "wellFormed g'" by blast
    with False QuickDrop QuickDrop_kind [of c game g']
    show ?thesis by (simp add: Game_loopBody_def loopEnd_def)
  next
    case Pause
    with False wf show ?thesis
      by (simp add: Game_loopBody_def loopEnd_def PauseToggle_wf PauseToggle_fields)
  next
    case Quit
    with False wf show ?thesis by (simp add: Game_loopBody_def)
  next
    case Redraw
    with False wf show ?thesis by (simp add: Game_loopBody_def loopEnd_def)
  qed
qed

lemma step_inv:
  assumes wf: "wellFormed game"
  shows "\<exists>ctl' game'. Game_Start_step c (ctl, game) event = Some (ctl', game') \<and> wellFormed game'
           \<and> (event \<notin> {MoveDown, QuickDrop} \<longrightarrow> score game' = score game)
           \<and> map kindOf (Game.pieces game') = map kindOf (Game.pieces game)"
proof (cases ctl)
  case InLoop
  with loopBody_inv [OF wf, of c event] show ?thesis by (simp add: Game_Start_step_def)
next
  case GameOver
  with wf show ?thesis by (simp add: Game_Start_step_def)
next
  case Returned
  with wf show ?thesis by (simp add: Game_Start_step_def)
qed

lemma Start_inv:
  assumes "wellFormed game"
  shows "\<exists>ctl' game'. Game_Start c (ctl, game) events = Some (ctl', game') \<and> wellFormed game'
           \<and> map kindOf (Game.pieces game') = map kindOf (Game.pieces game)"
  using assms
proof (induction events arbitrary: ctl game)
  case Nil
  then show ?case by simp
next
  case (Cons event events)
  from step_inv [OF Cons.prems, of c ctl event]
  obtain ctl1 g1 where s: "Game_Start_step c (ctl, game) event = Some (ctl1, g1)"
    and wf1: "wellFormed g1"
    and k1: "map kindOf (Game.pieces g1) = map kindOf (Game.pieces game)"
    by blast
  from Cons.IH [OF wf1, of ctl1]
  obtain ctl' game' where "Game_Start c (ctl1, g1) events = Some (ctl', game')"
    and "wellFormed game'"
    and "map kindOf (Game.pieces game') = map kindOf (Game.pieces g1)"
    by blast
  with s k1 show ?case by simp
qed

lemma tetrisPieces_ok: "list_all pieceOK tetrisPieces" and tetrisPieces_length: "length tetrisPieces = 7"
  by (simp_all add: tetrisPieces_def pieceOK_def)

lemma NewGame_value:
  "NewGame c r =
     Some \<lparr>board = \<lparr>cells = replicate (nat (height c)) (replicate (nat (width c)) None),
                    currentPiece = Some (r 0 mod 7),
                    currentPosition = Vector (initialX c) 0\<rparr>,
           nextPiece = Some (r 1 mod 7), pieces = tetrisPieces, paused = False, over = False,
           dropDelayMillis = 800, ticker = Some 800, score = 0,
           rand = (\<lambda>k. r (Suc (Suc k)))\<rparr>"
proof -
  have m: "nat (int n mod 7) = n mod 7" for n :: nat
    by (simp add: nat_mod_distrib)
  have ne: "tetrisPieces \<noteq> []"
    using tetrisPieces_length by auto
  show ?thesis
    by (simp add: NewGame_def Game_GeneratePiece_def rand_Intn_def tetrisPieces_length
        Game_startTicker_def newBoard_def m ne Let_def)
qed

lemma NewGame_wf: "NewGame c r = Some game \<Longrightarrow> wellFormed game"
  by (auto simp: NewGame_value wellFormed_def deref_def tetrisPieces_ok tetrisPieces_length)


lemma anchor_position:
  assumes "Game_anchor c game = Some game'"
  shows "currentPosition (board game') = Vector (initialX c) 0
       \<and> currentPiece (board game') = nextPiece game"
  using assms unfolding Game_anchor_def
  by (auto simp: Let_def Game_stopTicker_def Game_startTicker_def Game_GeneratePiece_def
      rand_Intn_def split: Option.bind_splits if_splits prod.splits)

lemma NewGame_small: "NewGame smallConsts zeroRand = Some smallGame"
proof -
  have t: "(\<lambda>k. zeroRand (Suc (Suc k))) = zeroRand"
    by (simp add: zeroRand_def)
  have g: "replicate (nat (height smallConsts)) (replicate (nat (width smallConsts)) None)
             = cells (board smallGame)"
    by (simp add: smallGame_def smallConsts_def eval_nat_numeral)
  show ?thesis
    unfolding NewGame_value t g by (simp add: smallGame_def smallConsts_def zeroRand_def)
qed

lemma NewGame_wide: "NewGame wideConsts tRand = Some wideGame"
proof -
  have t: "(\<lambda>k. tRand (Suc (Suc k))) = zeroRand"
    by (simp add: tRand_def zeroRand_def)
  have g: "replicate (nat (height wideConsts)) (replicate (nat (width wideConsts)) None)
             = cells (board wideGame)"
    by (simp add: wideGame_def wideConsts_def eval_nat_numeral)
  show ?thesis
    unfolding NewGame_value t g by (simp add: wideGame_def wideConsts_def tRand_def)
qed




lemma Shuffle_mset:
  "i < length xs \<Longrightarrow> mset (fst (rand_Shuffle i xs r)) = mset xs"
proof (induction i arbitrary: xs r)
  case 0
  then show ?case by simp
next
  case (Suc i)
  let ?j = "r 0 mod (Suc i + 1)"
  have "?j < Suc i + 1" by (rule mod_less_divisor) simp
  with Suc.prems have j: "?j < length xs" by linarith
  have sw: "mset (swap (Suc i) ?j xs) = mset xs"
    unfolding swap_def using Suc.prems j by (simp add: mset_swap)
  have "i < length (swap (Suc i) ?j xs)" using Suc.prems by (simp add: swap_def)
  from Suc.IH [OF this] sw show ?case by simp
qed

lemma initialize_props:
  assumes "Bag_initialize b r = (b1, r1)"
  shows "pieceNumber b1 = 6" and "mset (Bag.pieces b1) = mset [0, 1, 2, 3, 4, 5, 6]"
    and "bagNumber b1 = bagNumber b"
proof -
  let ?xs = "[0, 1, 2, 3, 4, 5, 6 :: int]"
  obtain ys r' where s: "rand_Shuffle (length ?xs - 1) ?xs r = (ys, r')"
    by (cases "rand_Shuffle (length ?xs - 1) ?xs r")
  have "mset (fst (rand_Shuffle (length ?xs - 1) ?xs r)) = mset ?xs"
    by (rule Shuffle_mset) simp
  then have m: "mset ys = mset ?xs" unfolding s by (simp only: fst_conv)
  from assms have b1: "b1 = b\<lparr>pieceNumber := 6, Bag.pieces := ys\<rparr>"
    unfolding Bag_initialize_def Bag_shuffle_def Let_def s by simp
  show "pieceNumber b1 = 6" "mset (Bag.pieces b1) = mset [0, 1, 2, 3, 4, 5, 6]"
    "bagNumber b1 = bagNumber b"
    using b1 m by simp_all
qed

text \<open>Within a bag, \<open>k\<close> draws read the pieces downwards from the countdown.\<close>

lemma draws_within:
  assumes "0 \<le> pieceNumber b" and "pieceNumber b < int (length (Bag.pieces b))"
    and "int k \<le> pieceNumber b + 1"
  shows "Bag_draws k b r =
           Some (map (\<lambda>i. Bag.pieces b ! (nat (pieceNumber b) - i)) [0..<k],
                 b\<lparr>pieceNumber := pieceNumber b - int k\<rparr>, r)"
  using assms
proof (induction k arbitrary: b)
  case 0
  then show ?case by simp
next
  case (Suc k)
  let ?b' = "b\<lparr>pieceNumber := pieceNumber b - 1\<rparr>"
  have g: "Bag_getPiece b r = Some (Bag.pieces b ! nat (pieceNumber b), ?b', r)"
    using Suc.prems by (simp add: Bag_getPiece_def)
  have ih: "Bag_draws k ?b' r =
           Some (map (\<lambda>i. Bag.pieces ?b' ! (nat (pieceNumber ?b') - i)) [0..<k],
                 ?b'\<lparr>pieceNumber := pieceNumber ?b' - int k\<rparr>, r)"
  proof (cases k)
    case 0
    then show ?thesis by simp
  next
    case (Suc k')
    show ?thesis by (rule Suc.IH) (use Suc.prems Suc in simp_all)
  qed
  have idx: "map (\<lambda>i. Bag.pieces b ! (nat (pieceNumber b) - i)) [0..<Suc k]
               = Bag.pieces b ! nat (pieceNumber b)
                 # map (\<lambda>i. Bag.pieces b ! (nat (pieceNumber b - 1) - i)) [0..<k]"
  proof -
    have "[0..<Suc k] = 0 # map Suc [0..<k]"
      by (simp add: upt_conv_Cons map_Suc_upt del: upt_Suc)
    moreover have "nat (pieceNumber b) - Suc i = nat (pieceNumber b - 1) - i" for i
      by simp
    ultimately show ?thesis by (simp add: comp_def)
  qed
  show ?case using g ih idx by simp
qed

lemma rev_by_index:
  "length xs = Suc m \<Longrightarrow> map (\<lambda>i. xs ! (m - i)) [0..<Suc m] = rev xs"
  by (rule nth_equalityI) (simp_all add: rev_nth del: upt_Suc)

text \<open>At a bag boundary, up to 7 draws read a fresh permutation of the 7 kinds backwards.\<close>

lemma draws_fresh:
  assumes "pieceNumber b < 0" and "0 < k" and "k \<le> 7"
  shows "\<exists>perm b' r'. Bag_draws k b r = Some (take k perm, b', r')
           \<and> mset perm = mset [0, 1, 2, 3, 4, 5, 6]
           \<and> (k = 7 \<longrightarrow> pieceNumber b' < 0)"
proof -
  obtain k' where k: "k = Suc k'" using assms(2) by (cases k) auto
  obtain b0 r1 where i: "Bag_initialize b r = (b0, r1)" by (cases "Bag_initialize b r")
  let ?b1 = "b0\<lparr>bagNumber := bagNumber b0 + 1\<rparr>"
  note p = initialize_props [OF i]
  have "size (mset (Bag.pieces b0)) = size (mset [0, 1, 2, 3, 4, 5, 6 :: int])"
    using p(2) by simp
  then have len: "length (Bag.pieces b0) = 7" by simp
  have same: "Bag_getPiece b r = Bag_getPiece ?b1 r1"
    using assms(1) i p(1) by (simp add: Bag_getPiece_def)
  have "Bag_draws k b r = Bag_draws k ?b1 r1"
    unfolding k by (simp add: same)
  also have "\<dots> = Some (map (\<lambda>i. Bag.pieces ?b1 ! (nat (pieceNumber ?b1) - i)) [0..<k],
                 ?b1\<lparr>pieceNumber := pieceNumber ?b1 - int k\<rparr>, r1)"
    by (rule draws_within) (use p(1) len assms(3) in simp_all)
  finally have d: "Bag_draws k b r =
      Some (map (\<lambda>i. Bag.pieces b0 ! (6 - i)) [0..<k], ?b1\<lparr>pieceNumber := 6 - int k\<rparr>, r1)"
    using p(1) by simp
  have "map (\<lambda>i. Bag.pieces b0 ! (6 - i)) [0..<k] = take k (map (\<lambda>i. Bag.pieces b0 ! (6 - i)) [0..<7])"
    using assms(3) by (simp add: take_map)
  also have "map (\<lambda>i. Bag.pieces b0 ! (6 - i)) [0..<7] = rev (Bag.pieces b0)"
    using rev_by_index [of "Bag.pieces b0" 6] len by (simp add: eval_nat_numeral)
  finally have "Bag_draws k b r = Some (take k (rev (Bag.pieces b0)), ?b1\<lparr>pieceNumber := 6 - int k\<rparr>, r1)"
    using d by simp
  moreover have "mset (rev (Bag.pieces b0)) = mset [0, 1, 2, 3, 4, 5, 6]"
    using p(2) by simp
  ultimately show ?thesis by auto
qed
lemma draws_append:
  "Bag_draws (k + m) b r =
     (case Bag_draws k b r of
        None \<Rightarrow> None
      | Some (ds, b', r') \<Rightarrow>
          (case Bag_draws m b' r' of
             None \<Rightarrow> None
           | Some (ds', b'', r'') \<Rightarrow> Some (ds @ ds', b'', r'')))"
  by (induction k arbitrary: b r) (auto split: option.splits)

lemma perm_facts:
  assumes "mset perm = mset [0, 1, 2, 3, 4, 5, 6 :: int]"
  shows "distinct perm" and "set perm = {0..6}" and "length perm = 7"
proof -
  have d: "distinct [0, 1, 2, 3, 4, 5, 6 :: int]" by simp
  show "distinct perm" using mset_eq_imp_distinct_iff [OF assms] d by simp
  have "set perm = set [0, 1, 2, 3, 4, 5, 6 :: int]" by (rule mset_eq_setD [OF assms])
  also have "\<dots> = {0..6}" by auto
  finally show "set perm = {0..6}" .
  have "size (mset perm) = size (mset [0, 1, 2, 3, 4, 5, 6 :: int])" using assms by simp
  then show "length perm = 7" by simp
qed

lemma chunk_shift: "length xs = 7 \<Longrightarrow> chunk (Suc j) (xs @ ys) = chunk j ys"
  by (simp add: chunk_def)

lemma chunk_first: "length xs = 7 \<Longrightarrow> chunk 0 (xs @ ys) = xs"
  by (simp add: chunk_def)

lemma chunk_short: "length ds \<le> 7 \<Longrightarrow> chunk j ds = (if j = 0 then ds else [])"
  by (simp add: chunk_def)

text \<open>From a bag boundary every number of draws succeeds, every run of 7 is without
  repetition, and every full run holds the 7 kinds.\<close>

lemma draws_chunks:
  assumes "pieceNumber b < 0"
  shows "\<exists>ds b' r'. Bag_draws n b r = Some (ds, b', r') \<and> length ds = n
           \<and> (\<forall>j. distinct (chunk j ds) \<and> (7 * j + 7 \<le> n \<longrightarrow> set (chunk j ds) = {0..6}))"
  using assms
proof (induction n arbitrary: b r rule: less_induct)
  case (less n)
  consider "n = 0" | "0 < n" "n \<le> 7" | "7 < n" by linarith
  then show ?case
  proof cases
    case 1
    then show ?thesis by (simp add: chunk_def)
  next
    case 2
    from draws_fresh [OF less.prems 2, of r]
    obtain perm b' r' where d: "Bag_draws n b r = Some (take n perm, b', r')"
      and m: "mset perm = mset [0, 1, 2, 3, 4, 5, 6]"
      by blast
    note pf = perm_facts [OF m]
    have len: "length (take n perm) = n" using pf(3) 2 by simp
    have "distinct (chunk j (take n perm))
            \<and> (7 * j + 7 \<le> n \<longrightarrow> set (chunk j (take n perm)) = {0..6})" for j
    proof (cases "j = 0")
      case True
      then show ?thesis using pf 2 len by (auto simp: chunk_short)
    next
      case False
      then show ?thesis using 2 len by (simp add: chunk_short)
    qed
    with d len show ?thesis by blast
  next
    case 3
    then obtain m where n: "n = 7 + m" and m: "m < n" "0 < m"
      by (metis add_diff_inverse_nat less_imp_add_positive not_less_iff_gr_or_eq
          add.commute less_add_same_cancel2 zero_less_numeral)
    from draws_fresh [OF less.prems, of 7 r]
    obtain perm b1 r1 where d7: "Bag_draws 7 b r = Some (take 7 perm, b1, r1)"
      and mp: "mset perm = mset [0, 1, 2, 3, 4, 5, 6]" and bd: "pieceNumber b1 < 0"
      by auto
    note pf = perm_facts [OF mp]
    from less.IH [OF m(1) bd, of r1]
    obtain ds' b' r' where dm: "Bag_draws m b1 r1 = Some (ds', b', r')" and lm: "length ds' = m"
      and cm: "\<forall>j. distinct (chunk j ds') \<and> (7 * j + 7 \<le> m \<longrightarrow> set (chunk j ds') = {0..6})"
      by blast
    have d: "Bag_draws n b r = Some (perm @ ds', b', r')"
      unfolding n draws_append using d7 dm pf(3) by simp
    have "distinct (chunk j (perm @ ds'))
            \<and> (7 * j + 7 \<le> n \<longrightarrow> set (chunk j (perm @ ds')) = {0..6})" for j
    proof (cases j)
      case 0
      then show ?thesis using pf by (simp add: chunk_first)
    next
      case (Suc j')
      then show ?thesis using cm pf(3) n by (simp add: chunk_shift)
    qed
    moreover have "length (perm @ ds') = n" using pf(3) lm n by simp
    ultimately show ?thesis using d by blast
  qed
qed

lemma chunk_nth:
  assumes "a < 7" and "7 * j + a < length ds"
  shows "a < length (chunk j ds)" and "chunk j ds ! a = ds ! (7 * j + a)"
  using assms by (simp_all add: chunk_def)

lemma chunk_neighbours:
  assumes "distinct (chunk j ds)" and "a + 1 < 7" and "7 * j + a + 1 < length ds"
  shows "ds ! (7 * j + a) \<noteq> ds ! (7 * j + a + 1)"
proof -
  have a: "a < length (chunk j ds)" "chunk j ds ! a = ds ! (7 * j + a)"
    by (rule chunk_nth; use assms in simp)+
  have b: "a + 1 < length (chunk j ds)" "chunk j ds ! (a + 1) = ds ! (7 * j + (a + 1))"
    by (rule chunk_nth; use assms in simp)+
  from assms(1) a(1) b(1) have "chunk j ds ! a \<noteq> chunk j ds ! (a + 1)"
    by (simp add: nth_eq_iff_index_eq)
  with a(2) b(2) show ?thesis by (simp add: add.assoc)
qed

lemma no_triple:
  assumes "\<forall>j. distinct (chunk j ds)" and "i + 2 < length ds"
  shows "\<not> (ds ! i = ds ! (i + 1) \<and> ds ! (i + 1) = ds ! (i + 2))"
proof (cases "i mod 7 + 1 < 7")
  case True
  have "ds ! (7 * (i div 7) + i mod 7) \<noteq> ds ! (7 * (i div 7) + i mod 7 + 1)"
    by (rule chunk_neighbours [OF _ True]) (use assms in simp_all)
  then show ?thesis by simp
next
  case False
  then have e: "i mod 7 = 6" by presburger
  then have i: "i + 1 = 7 * (i div 7 + 1)" by presburger
  have "ds ! (7 * (i div 7 + 1) + 0) \<noteq> ds ! (7 * (i div 7 + 1) + 0 + 1)"
    by (rule chunk_neighbours) (use assms i in simp_all)
  then show ?thesis using i by (metis add.assoc add_0_right one_add_one)
qed

lemma count_list_distinct:
  "distinct xs \<Longrightarrow> x \<in> set xs \<Longrightarrow> count_list xs x = 1"
  by (induction xs) auto

































section \<open>The claims\<close>

text \<open>
  C5: in the Paused state and in the Over state, every movement, rotation and drop event
  (MoveLeft, MoveRight, MoveDown, Rotate, QuickDrop) leaves the whole game state, so the
  grid, the score and the piece position, unchanged. Over is terminal: past the loop only
  Quit changes anything (it ends \<open>Start\<close>), and an iteration of the loop that ends with
  game-over set always leaves the loop.
\<close>

theorem paused_over_noop:
  "(paused game \<and> event \<in> {MoveLeft, MoveRight, MoveDown, Rotate, QuickDrop} \<longrightarrow>
      Game_Start_step c (InLoop, game) event
        = Some (if over game then GameOver else InLoop, game))
   \<and> Game_Start_step c (GameOver, game) event
        = Some (if event = Quit then Returned else GameOver, game)
   \<and> (\<forall>ctl' game'. Game_Start_step c (InLoop, game) event = Some (ctl', game') \<and> over game'
         \<longrightarrow> ctl' \<noteq> InLoop)"
  by (cases event) (auto simp: Game_Start_step_def Game_loopBody_def loopEnd_def split: if_splits)

theorem paused_over_noop_witness:
  "paused (smallGame\<lparr>paused := True\<rparr>)
   \<and> Game_Start_step smallConsts (InLoop, smallGame\<lparr>paused := True\<rparr>) QuickDrop
       = Some (InLoop, smallGame\<lparr>paused := True\<rparr>)
   \<and> Game_Start_step smallConsts (GameOver, smallGame\<lparr>over := True\<rparr>) QuickDrop
       = Some (GameOver, smallGame\<lparr>over := True\<rparr>)"
proof -
  have p: "paused (smallGame\<lparr>paused := True\<rparr>)" and o: "\<not> over (smallGame\<lparr>paused := True\<rparr>)"
    by (simp_all add: smallGame_def)
  from paused_over_noop [of "smallGame\<lparr>paused := True\<rparr>" QuickDrop smallConsts] p o
  have "Game_Start_step smallConsts (InLoop, smallGame\<lparr>paused := True\<rparr>) QuickDrop
          = Some (InLoop, smallGame\<lparr>paused := True\<rparr>)"
    by simp
  moreover
  from paused_over_noop [of "smallGame\<lparr>over := True\<rparr>" QuickDrop smallConsts]
  have "Game_Start_step smallConsts (GameOver, smallGame\<lparr>over := True\<rparr>) QuickDrop
          = Some (GameOver, smallGame\<lparr>over := True\<rparr>)"
    by simp
  ultimately show ?thesis using p by simp
qed

text \<open>
  C7: for every score \<open>s \<ge> 0\<close> the gravity interval that \<open>startTicker\<close> sets is
  \<open>max(200, 800 - s/5)\<close> milliseconds with integer division: 800 at score 0, 700 at score
  500, and the floor of 200 from score 3000 on.
\<close>

theorem startTicker_interval:
  assumes "0 \<le> score game"
  shows "dropDelayMillis (Game_startTicker game) = max 200 (800 - score game div 5)
       \<and> (score game = 0 \<longrightarrow> dropDelayMillis (Game_startTicker game) = 800)
       \<and> (score game = 500 \<longrightarrow> dropDelayMillis (Game_startTicker game) = 700)
       \<and> (3000 \<le> score game \<longrightarrow> dropDelayMillis (Game_startTicker game) = 200)"
  using assms by (auto simp: Game_startTicker_def Let_def sdiv_nonneg)

theorem startTicker_interval_witness:
  "0 \<le> score (smallGame\<lparr>score := 500\<rparr>)
   \<and> dropDelayMillis (Game_startTicker (smallGame\<lparr>score := 500\<rparr>)) = 700
   \<and> dropDelayMillis (Game_startTicker (smallGame\<lparr>score := 4000\<rparr>)) = 200"
proof -
  have a: "0 \<le> score (smallGame\<lparr>score := 500\<rparr>)" and b: "0 \<le> score (smallGame\<lparr>score := 4000\<rparr>)"
    by simp_all
  show ?thesis
    using a startTicker_interval [OF a] startTicker_interval [OF b] by simp
qed

text \<open>
  C8: for every board whose falling piece can be read (a valid piece pointer and rotation
  index) and every translation delta, \<open>moveIfPossible(delta)\<close> returns: either true, the
  position changed by exactly delta and the rest of the board (settled cells, piece
  pointer) unchanged, or false and the whole board unchanged; true is returned exactly when
  \<open>canPlace(delta, currentRotation)\<close> holds. The pieces, and so the rotation index and
  the kind, are not written at all.
\<close>

theorem moveIfPossible_frame:
  assumes "deref ps (currentPiece b) = Some p"
    and "Piece_instance p = Some inst"
  shows "\<exists>b' moved. Board_moveIfPossible c ps b delta = Some (b', moved)
           \<and> Board_canPlace c ps b delta (currentRotation p) = Some moved
           \<and> (if moved
              then b' = b\<lparr>currentPosition := Vector_plus (currentPosition b) delta\<rparr>
                 \<and> cells b' = cells b \<and> currentPiece b' = currentPiece b
              else b' = b)"
  using assms
  by (auto simp: Board_moveIfPossible_def Board_canPlace_def Piece_instance_def split: if_splits)

theorem moveIfPossible_frame_witness:
  "Board_moveIfPossible smallConsts tetrisPieces (board smallGame) (Vector 0 1)
     = Some ((board smallGame)\<lparr>currentPosition := Vector 0 1\<rparr>, True)
   \<and> Board_moveIfPossible smallConsts tetrisPieces (board smallGame) (Vector 1 0)
     = Some (board smallGame, False)"
proof -
  have d: "deref tetrisPieces (currentPiece (board smallGame)) = Some (tetrisPieces ! 0)"
    by (simp add: deref_def smallGame_def tetrisPieces_def)
  have i: "Piece_instance (tetrisPieces ! 0)
             = Some [Vector 0 0, Vector 1 0, Vector 0 1, Vector 1 1]"
    by (simp add: Piece_instance_def tetrisPieces_def)
  have down: "Board_canPlace smallConsts tetrisPieces (board smallGame) (Vector 0 1)
                (currentRotation (tetrisPieces ! 0)) = Some True"
    by (simp add: Board_canPlace_def deref_def smallGame_def tetrisPieces_def cellFree_def
        cellAt_def Vector_plus_def smallConsts_def)
  have right: "Board_canPlace smallConsts tetrisPieces (board smallGame) (Vector 1 0)
                (currentRotation (tetrisPieces ! 0)) = Some False"
    by (simp add: Board_canPlace_def deref_def smallGame_def tetrisPieces_def cellFree_def
        cellAt_def Vector_plus_def smallConsts_def)
  have pos: "Vector_plus (currentPosition (board smallGame)) (Vector 0 1) = Vector 0 1"
    by (simp add: Vector_plus_def smallGame_def)
  from moveIfPossible_frame [OF d i, of smallConsts "Vector 0 1"] down pos
  have "Board_moveIfPossible smallConsts tetrisPieces (board smallGame) (Vector 0 1)
          = Some ((board smallGame)\<lparr>currentPosition := Vector 0 1\<rparr>, True)"
    by auto
  moreover
  from moveIfPossible_frame [OF d i, of smallConsts "Vector 1 0"] right
  have "Board_moveIfPossible smallConsts tetrisPieces (board smallGame) (Vector 1 0)
          = Some (board smallGame, False)"
    by auto
  ultimately show ?thesis by simp
qed

text \<open>
  C9: for every grid, \<open>clearRows\<close> removes exactly the rows in which every cell is settled
  (the rows that \<open>clearedRows\<close> lists), however many there are: the grid keeps its height,
  the rows under the new top rows are the rows that were not full, in their order, each of
  them moved down by exactly the number of full rows that were below it, and the new top
  rows, as many as there were full rows, are empty. The falling piece is not touched.
\<close>

theorem clearRows_shift:
  "length (cells (Board_clearRows c b)) = length (cells b)
   \<and> length (Board_clearedRows b) = length (filter rowFull (cells b))
   \<and> set (Board_clearedRows b) = {int y | y. y < length (cells b) \<and> rowFull (cells b ! y)}
   \<and> drop (length (Board_clearedRows b)) (cells (Board_clearRows c b))
       = filter (\<lambda>row. \<not> rowFull row) (cells b)
   \<and> (\<forall>i < length (Board_clearedRows b).
         cells (Board_clearRows c b) ! i = replicate (nat (width c)) None)
   \<and> (\<forall>i < length (cells b). \<not> rowFull (cells b ! i) \<longrightarrow>
         cells (Board_clearRows c b) ! (i + length (filter rowFull (drop (Suc i) (cells b))))
           = cells b ! i)
   \<and> currentPiece (Board_clearRows c b) = currentPiece b
   \<and> currentPosition (Board_clearRows c b) = currentPosition b"
proof -
  let ?g = "cells b"
  let ?n = "length (filter rowFull ?g)"
  have n: "length (Board_clearedRows b) = ?n"
    by (simp add: Board_clearedRows_def filter_index_length)
  have g': "cells (Board_clearRows c b)
              = replicate ?n (replicate (nat (width c)) None) @ filter (\<lambda>row. \<not> rowFull row) ?g"
    by (simp add: Board_clearRows_def Let_def length_minus_kept)
  have len: "length (cells (Board_clearRows c b)) = length ?g"
    using sum_length_filter_compl [of rowFull ?g] by (simp add: g')
  have ids: "set (Board_clearedRows b) = {int y | y. y < length ?g \<and> rowFull (?g ! y)}"
    by (auto simp: Board_clearedRows_def)
  have dropn: "drop (length (Board_clearedRows b)) (cells (Board_clearRows c b))
                 = filter (\<lambda>row. \<not> rowFull row) ?g"
    by (simp add: n g')
  have top: "\<forall>i < length (Board_clearedRows b).
               cells (Board_clearRows c b) ! i = replicate (nat (width c)) None"
    by (simp add: n g' nth_append)
  have shift: "\<forall>i < length ?g. \<not> rowFull (?g ! i) \<longrightarrow>
         cells (Board_clearRows c b) ! (i + length (filter rowFull (drop (Suc i) ?g))) = ?g ! i"
    unfolding g' using kept_nth [of _ ?g rowFull] by blast
  have frame: "currentPiece (Board_clearRows c b) = currentPiece b
             \<and> currentPosition (Board_clearRows c b) = currentPosition b"
    by (simp add: Board_clearRows_def Let_def)
  from len n ids dropn top shift frame show ?thesis by blast
qed

theorem clearRows_shift_witness:
  "Board_clearedRows exampleBoard = [1, 3]
   \<and> cells (Board_clearRows smallConsts exampleBoard) ! 0 = [None, None]
   \<and> cells (Board_clearRows smallConsts exampleBoard) ! 1 = [None, None]
   \<and> cells (Board_clearRows smallConsts exampleBoard) ! 2 = [Some ColorRed, None]
   \<and> cells (Board_clearRows smallConsts exampleBoard) ! 3 = [None, Some ColorBlue]"
proof -
  have rows: "Board_clearedRows exampleBoard = [1, 3]"
    by (simp add: Board_clearedRows_def exampleBoard_def rowFull_def upt_rec)
  note cr = clearRows_shift [of smallConsts exampleBoard]
  have w: "replicate (nat (width smallConsts)) (None :: Attribute option) = [None, None]"
    by (simp add: smallConsts_def numeral_2_eq_2)
  from cr have top:
    "\<forall>i < length (Board_clearedRows exampleBoard).
       cells (Board_clearRows smallConsts exampleBoard) ! i
         = replicate (nat (width smallConsts)) None"
    by blast
  from top [rule_format, of 0] rows w
  have t0: "cells (Board_clearRows smallConsts exampleBoard) ! 0 = [None, None]"
    by simp
  from top [rule_format, of 1] rows w
  have t1: "cells (Board_clearRows smallConsts exampleBoard) ! 1 = [None, None]"
    by simp
  from cr have s:
    "\<forall>i < length (cells exampleBoard). \<not> rowFull (cells exampleBoard ! i) \<longrightarrow>
       cells (Board_clearRows smallConsts exampleBoard)
         ! (i + length (filter rowFull (drop (Suc i) (cells exampleBoard))))
       = cells exampleBoard ! i"
    by blast
  from s [rule_format, of 0]
  have t2: "cells (Board_clearRows smallConsts exampleBoard) ! 2 = [Some ColorRed, None]"
    by (simp add: exampleBoard_def rowFull_def numeral_2_eq_2)
  from s [rule_format, of 2]
  have t3: "cells (Board_clearRows smallConsts exampleBoard) ! 3 = [None, Some ColorBlue]"
    by (simp add: exampleBoard_def rowFull_def numeral_3_eq_3)
  from rows t0 t1 t2 t3 show ?thesis by simp
qed

text \<open>
  C6: for each rotation operation of the game, clockwise, counter-clockwise and by 180
  degrees, on a game whose falling piece has its rotation index within its rotation
  states: the rotation index of the falling piece is advanced by +1, -1 and +2
  respectively, modulo the rotation-state count of its kind, and if the piece collides at
  the resulting rotation, the game is returned as it was, the rotation index at its prior
  value and nothing else changed.
\<close>

theorem rotations_advance_or_revert:
  assumes d: "deref (Game.pieces game) (currentPiece (board game)) = Some p"
    and r: "0 \<le> currentRotation p" "currentRotation p < int (length (rotations p))"
  shows "\<exists>cw ccw dbl.
      Board_currentPieceInCollision c
        (Game.pieces (withRotation game ((currentRotation p + 1) mod int (length (rotations p)))))
        (board game) = Some cw
    \<and> Game_Rotate c game
        = Some (if cw then game
                else withRotation game ((currentRotation p + 1) mod int (length (rotations p))))
    \<and> Board_currentPieceInCollision c
        (Game.pieces (withRotation game ((currentRotation p - 1) mod int (length (rotations p)))))
        (board game) = Some ccw
    \<and> Game_RotateCCW c game
        = Some (if ccw then game
                else withRotation game ((currentRotation p - 1) mod int (length (rotations p))))
    \<and> Board_currentPieceInCollision c
        (Game.pieces (withRotation game ((currentRotation p + 2) mod int (length (rotations p)))))
        (board game) = Some dbl
    \<and> Game_Rotate180 c game
        = Some (if dbl then game
                else withRotation game ((currentRotation p + 2) mod int (length (rotations p))))"
proof -
  let ?n = "int (length (rotations p))"
  let ?r = "currentRotation p"
  let ?ptr = "currentPiece (board game)"
  have n: "0 < ?n" and len: "length (rotations p) \<noteq> 0" using r by auto
  have same: "game\<lparr>pieces := assign (Game.pieces game) ?ptr p\<rparr> = game"
    by (simp add: assign_same [OF d])
  have wr: "\<And>k. withRotation game k
              = game\<lparr>pieces := assign (Game.pieces game) ?ptr (p\<lparr>currentRotation := k\<rparr>)\<rparr>"
    by (simp add: withRotation_def d)
  have coll: "\<exists>x. Board_currentPieceInCollision c (Game.pieces (withRotation game k)) (board game)
                    = Some x" if "0 \<le> k" and "k < ?n" for k
    by (rule collision_defined [where p = "p\<lparr>currentRotation := k\<rparr>"])
       (simp_all add: wr deref_assign [OF d] that)
  have range: "\<And>k. 0 \<le> k mod ?n \<and> k mod ?n < ?n" using n by simp
  obtain cw where cw: "Board_currentPieceInCollision c
        (Game.pieces (withRotation game ((?r + 1) mod ?n))) (board game) = Some cw"
    using coll range by blast
  obtain ccw where ccw: "Board_currentPieceInCollision c
        (Game.pieces (withRotation game ((?r - 1) mod ?n))) (board game) = Some ccw"
    using coll range by blast
  obtain dbl where dbl: "Board_currentPieceInCollision c
        (Game.pieces (withRotation game ((?r + 2) mod ?n))) (board game) = Some dbl"
    using coll range by blast
  have ne: "rotations p \<noteq> []" using len by simp
  have rot: "Piece_rotate p = Some (p\<lparr>currentRotation := (?r + 1) mod ?n\<rparr>)"
    using r ne by (simp add: Piece_rotate_mod)
  have unrot: "Piece_unrotate q = Some (q\<lparr>currentRotation := (currentRotation q - 1) mod ?n\<rparr>)"
    if "rotations q = rotations p" for q
    using ne that by (simp add: Piece_unrotate_mod)
  have dblrot: "Piece_dblrotate p = Some (p\<lparr>currentRotation := (?r + 2) mod ?n\<rparr>)"
    using ne by (simp add: Piece_dblrotate_mod)
  have inv: "((?r + 1) mod ?n - 1) mod ?n = ?r"
    using r by (simp add: mod_diff_left_eq)
  have R: "Game_Rotate c game = Some (if cw then game else withRotation game ((?r + 1) mod ?n))"
    using cw by (simp add: Game_Rotate_def d rot wr deref_assign [OF d] unrot inv assign_assign same)
  have L: "Game_RotateCCW c game = Some (if ccw then game else withRotation game ((?r - 1) mod ?n))"
    using ccw by (simp add: Game_RotateCCW_def d unrot wr deref_assign [OF d] assign_assign same)
  have D: "Game_Rotate180 c game = Some (if dbl then game else withRotation game ((?r + 2) mod ?n))"
    using dbl by (simp add: Game_Rotate180_def d dblrot wr deref_assign [OF d] assign_assign same)
  from cw ccw dbl R L D show ?thesis by blast
qed


theorem rotations_advance_or_revert_witness:
  "Game_Rotate wideConsts wideGame = Some (withRotation wideGame 1)
   \<and> Game_RotateCCW wideConsts wideGame = Some (withRotation wideGame 3)
   \<and> Game_Rotate180 wideConsts wideGame = Some (withRotation wideGame 2)
   \<and> Game_Rotate wideConsts lowGame = Some lowGame"
proof -
  have d: "deref (Game.pieces wideGame) (currentPiece (board wideGame)) = Some (tetrisPieces ! 3)"
    and d': "deref (Game.pieces lowGame) (currentPiece (board lowGame)) = Some (tetrisPieces ! 3)"
    by (simp_all add: sample_defs)
  have r: "0 \<le> currentRotation (tetrisPieces ! 3)"
    "currentRotation (tetrisPieces ! 3) < int (length (rotations (tetrisPieces ! 3)))"
    by (simp_all add: tetrisPieces_def)
  have k: "(currentRotation (tetrisPieces ! 3) + 1) mod int (length (rotations (tetrisPieces ! 3))) = 1"
    "(currentRotation (tetrisPieces ! 3) - 1) mod int (length (rotations (tetrisPieces ! 3))) = 3"
    "(currentRotation (tetrisPieces ! 3) + 2) mod int (length (rotations (tetrisPieces ! 3))) = 2"
    by (simp_all add: tetrisPieces_def)
  have c1: "Board_currentPieceInCollision wideConsts (Game.pieces (withRotation wideGame 1))
              (board wideGame) = Some False"
    by (simp add: sample_defs)
  have c3: "Board_currentPieceInCollision wideConsts (Game.pieces (withRotation wideGame 3))
              (board wideGame) = Some False"
    by (simp add: sample_defs)
  have c2: "Board_currentPieceInCollision wideConsts (Game.pieces (withRotation wideGame 2))
              (board wideGame) = Some False"
    by (simp add: sample_defs)
  have c4: "Board_currentPieceInCollision wideConsts (Game.pieces (withRotation lowGame 1))
              (board lowGame) = Some True"
    by (simp add: sample_defs)
  from rotations_advance_or_revert [OF d r, of wideConsts] c1 c2 c3
  have "Game_Rotate wideConsts wideGame = Some (withRotation wideGame 1)
      \<and> Game_RotateCCW wideConsts wideGame = Some (withRotation wideGame 3)
      \<and> Game_Rotate180 wideConsts wideGame = Some (withRotation wideGame 2)"
    unfolding k by auto
  moreover
  from rotations_advance_or_revert [OF d' r, of wideConsts] c4
  have "Game_Rotate wideConsts lowGame = Some lowGame"
    unfolding k by auto
  ultimately show ?thesis by simp
qed

text \<open>
  C2, as the code has it: whenever a new piece enters play, at game start and after every
  anchor (of a well-formed game, where it returns), it is placed at the fixed position
  \<open>(initialX, 0)\<close>, whatever its kind; the piece that enters play after an anchor is the
  one that was next; at game start its rotation index is 0.
\<close>

theorem spawn_position:
  "(\<exists>game p. NewGame c r = Some game
        \<and> currentPosition (board game) = Vector (initialX c) 0
        \<and> deref (Game.pieces game) (currentPiece (board game)) = Some p
        \<and> currentRotation p = 0)
   \<and> (wellFormed game \<longrightarrow>
        (\<exists>game'. Game_anchor c game = Some game'
           \<and> currentPosition (board game') = Vector (initialX c) 0
           \<and> currentPiece (board game') = nextPiece game))"
proof -
  have lt: "r 0 mod 7 < length tetrisPieces" by (simp add: tetrisPieces_length)
  have "list_all (\<lambda>p. currentRotation p = 0) tetrisPieces"
    by (simp add: tetrisPieces_def)
  with lt have "currentRotation (tetrisPieces ! (r 0 mod 7)) = 0"
    by (simp add: list_all_length)
  with lt have start: "\<exists>game p. NewGame c r = Some game
        \<and> currentPosition (board game) = Vector (initialX c) 0
        \<and> deref (Game.pieces game) (currentPiece (board game)) = Some p
        \<and> currentRotation p = 0"
    by (simp add: NewGame_value deref_def)
  have "\<exists>game'. Game_anchor c game = Some game'
           \<and> currentPosition (board game') = Vector (initialX c) 0
           \<and> currentPiece (board game') = nextPiece game" if "wellFormed game"
  proof -
    from anchor_wf [OF that, of c] obtain game' where a: "Game_anchor c game = Some game'"
      by blast
    with anchor_position [OF a] show ?thesis by simp
  qed
  with start show ?thesis by blast
qed

theorem spawn_position_witness:
  "wellFormed landedGame
   \<and> (\<exists>game'. Game_anchor smallConsts landedGame = Some game'
         \<and> currentPosition (board game') = Vector 0 0
         \<and> currentPiece (board game') = Some 0)"
proof -
  have wf: "wellFormed landedGame"
    by (simp add: wellFormed_def landedGame_def smallGame_def deref_def tetrisPieces_ok
        tetrisPieces_length)
  have n: "nextPiece landedGame = Some 0" and x: "initialX smallConsts = 0"
    by (simp_all add: landedGame_def smallGame_def smallConsts_def)
  from spawn_position [of smallConsts zeroRand landedGame] wf n x show ?thesis by auto
qed

theorem spawn_position_counterexample:
  "NewGame stdConsts lRand = Some lGame
   \<and> currentPiece (board lGame) = Some 4
   \<and> currentPosition (board lGame) = Vector 3 0
   \<and> initialLocation (tetrisPieces ! 4) = Vector 3 (- 1)
   \<and> currentPosition (board lGame) \<noteq> initialLocation (tetrisPieces ! 4)"
proof -
  have "NewGame stdConsts lRand = Some lGame"
    by (simp add: NewGame_value stdConsts_def lRand_def lGame_def)
  then show ?thesis by (simp add: lGame_def tetrisPieces_def)
qed

text \<open>
  The rotation index after an anchor is not part of the statement above. With T in play and
  T next, both pointers are the same catalog entry: a Rotate event turns that entry, and the
  anchor that follows resets only the entry of the newly drawn piece O, so the second T
  enters play at rotation index 1.
\<close>

lemma rotation_kept_example:
  "enteredPiece
     (Option.bind (NewGame stdConsts ttRand)
        (\<lambda>game. Game_Start stdConsts (InLoop, game) [Rotate, QuickDrop]))
   = Some (Some 3, Vector 3 0, Some 1)"
  by code_simp

text \<open>
  C3, as the code has it: no operation of the game changes the name, the rotation offsets,
  the spawn offset or the colour of an entry of the piece catalog: from a new game, whose
  pieces are the catalog, every sequence of events is processed and leaves these fields of
  every entry as the catalog has them. The current-rotation field is not among them: the
  pieces in play are pointers into the catalog, and rotation state is kept in the entry.
\<close>

theorem catalog_kinds_fixed:
  "\<exists>g0. NewGame c r = Some g0 \<and> Game.pieces g0 = tetrisPieces
      \<and> (\<forall>events. \<exists>ctl game. Game_Start c (InLoop, g0) events = Some (ctl, game)
             \<and> map kindOf (Game.pieces game) = map kindOf tetrisPieces)"
proof -
  obtain g0 where g0: "NewGame c r = Some g0" by (simp add: NewGame_value)
  then have ps: "Game.pieces g0 = tetrisPieces" by (auto simp: NewGame_value)
  have wf: "wellFormed g0" by (rule NewGame_wf [OF g0])
  have "\<exists>ctl game. Game_Start c (InLoop, g0) events = Some (ctl, game)
          \<and> map kindOf (Game.pieces game) = map kindOf tetrisPieces" for events
    using Start_inv [OF wf, of c InLoop events] ps by auto
  with g0 ps show ?thesis by blast
qed

theorem catalog_kinds_fixed_witness:
  "NewGame smallConsts zeroRand = Some smallGame
   \<and> (\<exists>ctl game. Game_Start smallConsts (InLoop, smallGame) [Rotate, QuickDrop] = Some (ctl, game)
         \<and> map kindOf (Game.pieces game) = map kindOf tetrisPieces)"
proof -
  from catalog_kinds_fixed [of smallConsts zeroRand]
  obtain g0 where g0: "NewGame smallConsts zeroRand = Some g0"
    and all: "\<forall>events. \<exists>ctl game. Game_Start smallConsts (InLoop, g0) events = Some (ctl, game)
                \<and> map kindOf (Game.pieces game) = map kindOf tetrisPieces"
    by blast
  from g0 NewGame_small have "g0 = smallGame" by simp
  with all NewGame_small show ?thesis by blast
qed

theorem catalog_kinds_fixed_counterexample:
  "NewGame wideConsts tRand = Some wideGame
   \<and> Game.pieces wideGame = tetrisPieces
   \<and> Game_Start wideConsts (InLoop, wideGame) [Rotate] = Some (InLoop, withRotation wideGame 1)
   \<and> currentRotation (tetrisPieces ! 3) = 0
   \<and> currentRotation (Game.pieces (withRotation wideGame 1) ! 3) = 1"
proof -
  note n = NewGame_wide
  have c1: "Board_currentPieceInCollision wideConsts (Game.pieces (withRotation wideGame 1))
              (board wideGame) = Some False"
    by (simp add: sample_defs)
  have w: "withRotation wideGame 1
             = wideGame\<lparr>pieces := assign (Game.pieces wideGame) (currentPiece (board wideGame))
                                      ((tetrisPieces ! 3)\<lparr>currentRotation := 1\<rparr>)\<rparr>"
    by (simp add: sample_defs)
  have d: "deref (Game.pieces wideGame) (currentPiece (board wideGame)) = Some (tetrisPieces ! 3)"
    by (simp add: sample_defs)
  have rot: "Piece_rotate (tetrisPieces ! 3) = Some ((tetrisPieces ! 3)\<lparr>currentRotation := 1\<rparr>)"
    by (simp add: Piece_rotate_def tetrisPieces_def signed_modulo_int_def)
  have R: "Game_Rotate wideConsts wideGame = Some (withRotation wideGame 1)"
    using c1 by (simp add: Game_Rotate_def d rot w)
  have o: "\<not> paused wideGame" "\<not> over (withRotation wideGame 1)"
    by (simp_all add: sample_defs)
  have S: "Game_Start wideConsts (InLoop, wideGame) [Rotate] = Some (InLoop, withRotation wideGame 1)"
    using o by (simp add: Game_Start_step_def Game_loopBody_def R loopEnd_def)
  have "Game.pieces wideGame = tetrisPieces" by (simp add: wideGame_def)
  moreover have "currentRotation (tetrisPieces ! 3) = 0" by (simp add: tetrisPieces_def)
  moreover have "currentRotation (Game.pieces (withRotation wideGame 1) ! 3) = 1"
    by (simp add: sample_defs)
  ultimately show ?thesis using n S by simp
qed

text \<open>
  C1, as the code has it: for every sequence of draws from the bag (\<open>Bag.getPiece\<close>) that
  starts at a bag boundary, whatever the random source produces: every draw returns, each
  consecutive run of 7 draws contains every one of the 7 piece kinds exactly once, and no
  kind appears three times in a row.
\<close>

theorem bag_draws_seven_bag:
  assumes "pieceNumber b < 0"
  shows "\<exists>ds b' r'. Bag_draws n b r = Some (ds, b', r') \<and> length ds = n
           \<and> (\<forall>i. 7 * i + 7 \<le> n \<longrightarrow>
                 length (chunk i ds) = 7 \<and> (\<forall>k \<in> {0..6}. count_list (chunk i ds) k = 1))
           \<and> (\<forall>i. i + 2 < n \<longrightarrow> \<not> (ds ! i = ds ! (i + 1) \<and> ds ! (i + 1) = ds ! (i + 2)))"
proof -
  from draws_chunks [OF assms, of n r]
  obtain ds b' r' where d: "Bag_draws n b r = Some (ds, b', r')" and len: "length ds = n"
    and c: "\<forall>j. distinct (chunk j ds) \<and> (7 * j + 7 \<le> n \<longrightarrow> set (chunk j ds) = {0..6})"
    by blast
  have runs: "length (chunk i ds) = 7 \<and> (\<forall>k \<in> {0..6}. count_list (chunk i ds) k = 1)"
    if "7 * i + 7 \<le> n" for i
  proof -
    from c that have "distinct (chunk i ds)" and "set (chunk i ds) = {0..6}" by simp_all
    then have "\<forall>k \<in> {0..6}. count_list (chunk i ds) k = 1"
      by (simp add: count_list_distinct)
    moreover have "length (chunk i ds) = 7" using that len by (simp add: chunk_def)
    ultimately show ?thesis by simp
  qed
  have triple: "\<not> (ds ! i = ds ! (i + 1) \<and> ds ! (i + 1) = ds ! (i + 2))" if "i + 2 < n" for i
    by (rule no_triple) (use c that len in simp_all)
  from d len runs triple show ?thesis by blast
qed
theorem bag_draws_seven_bag_witness:
  "pieceNumber emptyBag < 0
   \<and> map_option fst (Bag_draws 7 emptyBag zeroRand) = Some [0, 6, 5, 4, 3, 2, 1]
   \<and> (\<exists>ds b' r'. Bag_draws 14 emptyBag zeroRand = Some (ds, b', r') \<and> length ds = 14
         \<and> count_list (chunk 0 ds) 3 = 1 \<and> count_list (chunk 1 ds) 3 = 1
         \<and> \<not> (ds ! 6 = ds ! 7 \<and> ds ! 7 = ds ! 8))"
proof -
  have neg: "pieceNumber emptyBag < 0" by (simp add: emptyBag_def)
  have seven: "map_option fst (Bag_draws 7 emptyBag zeroRand) = Some [0, 6, 5, 4, 3, 2, 1]"
    by code_simp
  from bag_draws_seven_bag [OF neg, of 14 zeroRand]
  obtain ds b' r' where d: "Bag_draws 14 emptyBag zeroRand = Some (ds, b', r')"
    and len: "length ds = 14"
    and runs: "\<forall>i. 7 * i + 7 \<le> (14 :: nat) \<longrightarrow>
                 length (chunk i ds) = 7 \<and> (\<forall>k \<in> {0..6}. count_list (chunk i ds) k = 1)"
    and triple: "\<forall>i. i + 2 < (14 :: nat) \<longrightarrow>
                 \<not> (ds ! i = ds ! (i + 1) \<and> ds ! (i + 1) = ds ! (i + 2))"
    by blast
  from runs [rule_format, of 0] have c0: "count_list (chunk 0 ds) 3 = 1" by simp
  from runs [rule_format, of 1] have c1: "count_list (chunk 1 ds) 3 = 1" by simp
  from triple [rule_format, of 6] have t: "\<not> (ds ! 6 = ds ! 7 \<and> ds ! 7 = ds ! 8)" by simp
  from d len c0 c1 t
  have "\<exists>ds b' r'. Bag_draws 14 emptyBag zeroRand = Some (ds, b', r') \<and> length ds = 14
         \<and> count_list (chunk 0 ds) 3 = 1 \<and> count_list (chunk 1 ds) 3 = 1
         \<and> \<not> (ds ! 6 = ds ! 7 \<and> ds ! 7 = ds ! 8)"
    by blast
  with neg seven show ?thesis by (intro conjI)
qed

theorem bag_draws_seven_bag_counterexample:
  "Game_draws 7 smallGame
     = Some ([Some 0, Some 0, Some 0, Some 0, Some 0, Some 0, Some 0], smallGame)"
proof -
  have g: "Game_GeneratePiece smallGame = Some (Some 0, smallGame)"
    by (simp add: Game_GeneratePiece_def rand_Intn_def smallGame_def tetrisPieces_length
        zeroRand_def)
  show ?thesis by (simp add: eval_nat_numeral g)
qed







end
